theory Spec2Isabelle
  imports Main "HOL-Library.Multiset"
begin

section \<open>JavaScript values\<close>

text \<open>
  A field of a JSON argument object or of a stored rule is absent (\<open>Undefined\<close>),
  \<open>null\<close>, or a value of the type the tool schema declares for it. The source tests
  such fields by truthiness (\<open>if (x)\<close>, \<open>x || d\<close>) and in a few places by
  \<open>x !== undefined\<close>; both are kept apart here. Numeric arguments (batch sizes, a
  rule index) are integers.
\<close>

datatype 'a js = Undefined | Null | Val 'a

text \<open>Truthiness of a string field: the empty string is falsy.\<close>

fun truthy_str :: "string js \<Rightarrow> bool" where
  "truthy_str (Val s) = (s \<noteq> [])"
| "truthy_str _ = False"

text \<open>Truthiness of a boolean field.\<close>

fun truthy_bool :: "bool js \<Rightarrow> bool" where
  "truthy_bool (Val b) = b"
| "truthy_bool _ = False"

text \<open>\<open>x && Array.isArray(x) && x.length > 0\<close> on an array field.\<close>

fun nonempty_array :: "'a list js \<Rightarrow> bool" where
  "nonempty_array (Val xs) = (xs \<noteq> [])"
| "nonempty_array _ = False"

text \<open>\<open>x || []\<close> on an array field (an array, even an empty one, is truthy).\<close>

fun or_empty :: "'a list js \<Rightarrow> 'a list" where
  "or_empty (Val xs) = xs"
| "or_empty _ = []"

text \<open>\<open>x || null\<close> on a string field and on an array field.\<close>

definition str_or_null :: "string js \<Rightarrow> string js" where
  "str_or_null x = (if truthy_str x then x else Null)"

fun arr_or_null :: "'a list js \<Rightarrow> 'a list js" where
  "arr_or_null (Val xs) = Val xs"
| "arr_or_null _ = Null"

text \<open>The string a truthy string field holds.\<close>

fun str_of :: "string js \<Rightarrow> string" where
  "str_of (Val s) = s"
| "str_of _ = []"

text \<open>\<open>Array.prototype.join\<close>.\<close>

fun join :: "string \<Rightarrow> string list \<Rightarrow> string" where
  "join sep [] = []"
| "join sep [x] = x"
| "join sep (x # y # ys) = x @ sep @ join sep (y # ys)"

definition dquote :: char where
  "dquote = CHR 0x22"

text \<open>Decimal rendering of numbers inside template strings.\<close>

fun string_of_nat :: "nat \<Rightarrow> string" where
  "string_of_nat n =
     (if n < 10 then [char_of (48 + n)]
      else string_of_nat (n div 10) @ [char_of (48 + n mod 10)])"

declare string_of_nat.simps [simp del]

definition string_of_int :: "int \<Rightarrow> string" where
  "string_of_int i = (if i < 0 then CHR ''-'' # string_of_nat (nat (- i)) else string_of_nat (nat i))"

text \<open>\<open>Math.ceil(a / b)\<close> for a natural \<open>a\<close> and a positive \<open>b\<close>.\<close>

definition ceil_div :: "nat \<Rightarrow> nat \<Rightarrow> nat" where
  "ceil_div a b = (a + b - 1) div b"

text \<open>
  \<open>[...new Set(xs)]\<close>: the elements of \<open>xs\<close> in the order of their first
  occurrence.
\<close>

definition set_insert :: "'a \<Rightarrow> 'a list \<Rightarrow> 'a list" where
  "set_insert x acc = (if x \<in> set acc then acc else acc @ [x])"

definition new_Set :: "'a list \<Rightarrow> 'a list" where
  "new_Set xs = fold set_insert xs []"

section \<open>Errors\<close>

text \<open>
  A tool either returns its payload or throws. \<open>McpError\<close> is the error the tools
  raise themselves; \<open>Thrown\<close> is an exception of the mailbox client or of the file
  system that a tool lets through (the dispatcher turns it into an internal error).
\<close>

datatype error_code = InvalidParams | InvalidRequest | InternalError

datatype error = McpError error_code string | Thrown string

section \<open>Rules and the rule store\<close>

record rule =
  label_name :: "string js"
  sender_pattern :: "string js"
  subject_pattern :: "string js"
  subject_contains :: "string list js"
  query :: "string js"
  enabled :: "bool js"
  created :: "string js"
  last_run :: "string js"
  updated :: "string js"

record rules_config =
  version :: string
  lastUpdated :: string
  rules :: "rule list js"

text \<open>
  The rule file: \<open>None\<close> when it is missing or does not parse. \<open>fs_write_error\<close>
  is the exception \<open>fs.writeFile\<close> raises, if it does; \<open>now\<close> is what
  \<open>new Date().toISOString()\<close> returns.
\<close>

record store =
  rules_file :: "rules_config option"
  fs_write_error :: "string option"
  now :: string

definition loadAutoLabelingRules :: "store \<Rightarrow> rule list" where
  "loadAutoLabelingRules st =
     (case rules_file st of
        None \<Rightarrow> []
      | Some config \<Rightarrow> or_empty (rules config))"

definition saveAutoLabelingRules :: "rule list \<Rightarrow> store \<Rightarrow> string option \<times> store" where
  "saveAutoLabelingRules rs st =
     (case fs_write_error st of
        Some e \<Rightarrow> (Some e, st)
      | None \<Rightarrow>
          (None, st\<lparr>rules_file :=
             Some \<lparr>version = ''1.0.0'', lastUpdated = now st, rules = Val rs\<rparr>\<rparr>))"

section \<open>Query synthesis\<close>

definition from_clause :: "string \<Rightarrow> string" where
  "from_clause p = ''from:'' @ p"

definition subject_clause :: "string \<Rightarrow> string" where
  "subject_clause p = ''subject:'' @ [dquote] @ p @ [dquote]"

definition or_group :: "string list \<Rightarrow> string" where
  "or_group ts = ''('' @ join '' OR '' (map subject_clause ts) @ '')''"

text \<open>
  The three pattern clauses as \<open>toolAddAutoLabelingRule\<close> and
  \<open>toolUpdateAutoLabelingRule\<close> collect them in \<open>conditions\<close>.
\<close>

definition conditions3 :: "string js \<Rightarrow> string js \<Rightarrow> string list js \<Rightarrow> string list" where
  "conditions3 sp subj sc =
     (if truthy_str sp then [from_clause (str_of sp)] else []) @
     (if truthy_str subj then [subject_clause (str_of subj)] else []) @
     (if nonempty_array sc then [or_group (or_empty sc)] else [])"

text \<open>\<open>searchQuery\<close> of \<open>toolAddAutoLabelingRule\<close>.\<close>

definition add_searchQuery :: "string js \<Rightarrow> string js \<Rightarrow> string list js \<Rightarrow> string js \<Rightarrow> string" where
  "add_searchQuery sp subj sc q =
     (if truthy_str q then str_of q else join '' '' (conditions3 sp subj sc))"

text \<open>\<open>query\<close> of \<open>toolAutoLabelEmails\<close>: no clause for \<open>subject_contains\<close>.\<close>

definition autoLabel_query :: "rule \<Rightarrow> string" where
  "autoLabel_query r =
     (if truthy_str (query r) then str_of (query r)
      else join '' ''
        ((if truthy_str (sender_pattern r) then [from_clause (str_of (sender_pattern r))] else []) @
         (if truthy_str (subject_pattern r) then [subject_clause (str_of (subject_pattern r))] else [])))"

text \<open>
  \<open>searchQuery\<close> of \<open>toolRunAutoLabelingRules\<close>: the stored query, or the OR-group
  of \<open>subject_contains\<close> alone. The result is tested by truthiness, so a falsy stored
  query with no \<open>subject_contains\<close> is kept as it is.
\<close>

definition run_searchQuery :: "rule \<Rightarrow> string js" where
  "run_searchQuery r =
     (if \<not> truthy_str (query r) \<and> nonempty_array (subject_contains r)
      then Val (or_group (or_empty (subject_contains r)))
      else query r)"

text \<open>
  The synthesizer as the specification words it, to compare the code paths with: the
  query verbatim when set, else the clauses of whichever pattern fields are present,
  joined by one space.
\<close>

definition spec_effective_query :: "rule \<Rightarrow> string" where
  "spec_effective_query r =
     (if truthy_str (query r) then str_of (query r)
      else join '' ''
        ((if truthy_str (sender_pattern r) then [''from:'' @ str_of (sender_pattern r)] else []) @
         (if truthy_str (subject_pattern r)
          then [''subject:'' @ [dquote] @ str_of (subject_pattern r) @ [dquote]] else []) @
         (if nonempty_array (subject_contains r)
          then [''('' @ join '' OR ''
                  (map (\<lambda>t. ''subject:'' @ [dquote] @ t @ [dquote]) (or_empty (subject_contains r))) @ '')'']
          else [])))"

section \<open>Rule management tools\<close>

record rule_args =
  a_label_name :: "string js"
  a_sender_pattern :: "string js"
  a_subject_pattern :: "string js"
  a_subject_contains :: "string list js"
  a_query :: "string js"
  a_enabled :: "bool js"

record add_output =
  ao_index :: int
  ao_rule :: rule
  ao_total_rules :: nat

definition toolAddAutoLabelingRule :: "rule_args \<Rightarrow> store \<Rightarrow> (error + add_output) \<times> store" where
  "toolAddAutoLabelingRule args st =
     (if \<not> truthy_str (a_label_name args)
      then (Inl (McpError InvalidParams ''label_name is required''), st)
      else
        let rs = loadAutoLabelingRules st;
            searchQuery = add_searchQuery (a_sender_pattern args) (a_subject_pattern args)
                            (a_subject_contains args) (a_query args)
        in if searchQuery = []
           then (Inl (McpError InvalidParams
                  ''No search criteria provided (need sender_pattern, subject_pattern, subject_contains, or query)''), st)
           else
             let newRule = \<lparr>label_name = a_label_name args,
                            sender_pattern = str_or_null (a_sender_pattern args),
                            subject_pattern = str_or_null (a_subject_pattern args),
                            subject_contains = arr_or_null (a_subject_contains args),
                            query = Val searchQuery,
                            enabled = (case a_enabled args of Undefined \<Rightarrow> Val True | e \<Rightarrow> e),
                            created = Val (now st),
                            last_run = Null,
                            updated = Undefined\<rparr>;
                 rs' = rs @ [newRule]
             in case saveAutoLabelingRules rs' st of
                  (Some e, st') \<Rightarrow> (Inl (Thrown e), st')
                | (None, st') \<Rightarrow>
                    (Inr \<lparr>ao_index = int (length rs') - 1, ao_rule = newRule,
                          ao_total_rules = length rs'\<rparr>, st'))"

text \<open>
  \<open>rule_index\<close> is \<open>None\<close> when the argument is not a number; the schema declares a
  number and an index is read as an integer.
\<close>

definition out_of_range_msg :: "int \<Rightarrow> nat \<Rightarrow> string" where
  "out_of_range_msg i n =
     ''Rule index '' @ string_of_int i @ '' is out of range. Available rules: 0-'' @
     string_of_int (int n - 1)"

record remove_output =
  ro_index :: int
  ro_removed_rule :: rule
  ro_remaining_rules :: nat

definition toolRemoveAutoLabelingRule :: "int option \<Rightarrow> store \<Rightarrow> (error + remove_output) \<times> store" where
  "toolRemoveAutoLabelingRule rule_index st =
     (case rule_index of
        None \<Rightarrow> (Inl (McpError InvalidParams ''rule_index must be a non-negative number''), st)
      | Some i \<Rightarrow>
          if i < 0
          then (Inl (McpError InvalidParams ''rule_index must be a non-negative number''), st)
          else
            let rs = loadAutoLabelingRules st
            in if i \<ge> int (length rs)
               then (Inl (McpError InvalidRequest (out_of_range_msg i (length rs))), st)
               else
                 let removedRule = rs ! nat i;
                     rs' = take (nat i) rs @ drop (Suc (nat i)) rs
                 in case saveAutoLabelingRules rs' st of
                      (Some e, st') \<Rightarrow> (Inl (Thrown e), st')
                    | (None, st') \<Rightarrow>
                        (Inr \<lparr>ro_index = i, ro_removed_rule = removedRule,
                              ro_remaining_rules = length rs'\<rparr>, st'))"

record listed_rule =
  l_index :: nat
  l_label_name :: "string js"
  l_sender_pattern :: "string js"
  l_subject_pattern :: "string js"
  l_query :: "string js"
  l_enabled :: bool
  l_created :: string
  l_last_run :: string

definition format_rule :: "nat \<Rightarrow> rule \<Rightarrow> listed_rule" where
  "format_rule index r =
     \<lparr>l_index = index,
      l_label_name = label_name r,
      l_sender_pattern = str_or_null (sender_pattern r),
      l_subject_pattern = str_or_null (subject_pattern r),
      l_query = str_or_null (query r),
      l_enabled = (enabled r \<noteq> Val False),
      l_created = (if truthy_str (created r) then str_of (created r) else ''Unknown''),
      l_last_run = (if truthy_str (last_run r) then str_of (last_run r) else ''Never'')\<rparr>"

definition toolListAutoLabelingRules :: "store \<Rightarrow> listed_rule list" where
  "toolListAutoLabelingRules st =
     (let rs = loadAutoLabelingRules st
      in map (\<lambda>(index, r). format_rule index r) (enumerate 0 rs))"

text \<open>
  \<open>rebuilt_query\<close> is the block of \<open>toolUpdateAutoLabelingRule\<close> that rebuilds the
  query of the already updated rule \<open>r\<close> when a pattern argument was given.
\<close>

definition rebuilt_query :: "rule_args \<Rightarrow> rule \<Rightarrow> rule" where
  "rebuilt_query args r =
     (if a_sender_pattern args \<noteq> Undefined \<or> a_subject_pattern args \<noteq> Undefined
         \<or> a_subject_contains args \<noteq> Undefined
      then
        if truthy_str (query r) \<and> \<not> truthy_str (a_query args)
        then r\<lparr>query := Val (join '' ''
                 (conditions3 (sender_pattern r) (subject_pattern r) (subject_contains r)))\<rparr>
        else r
      else r)"

definition update_fields :: "rule_args \<Rightarrow> rule \<Rightarrow> rule" where
  "update_fields args r =
     (let r1 = (if a_label_name args \<noteq> Undefined then r\<lparr>label_name := a_label_name args\<rparr> else r);
          r2 = (if a_sender_pattern args \<noteq> Undefined then r1\<lparr>sender_pattern := a_sender_pattern args\<rparr> else r1);
          r3 = (if a_subject_pattern args \<noteq> Undefined then r2\<lparr>subject_pattern := a_subject_pattern args\<rparr> else r2);
          r4 = (if a_subject_contains args \<noteq> Undefined then r3\<lparr>subject_contains := a_subject_contains args\<rparr> else r3);
          r5 = (if a_query args \<noteq> Undefined then r4\<lparr>query := a_query args\<rparr> else r4)
      in if a_enabled args \<noteq> Undefined then r5\<lparr>enabled := a_enabled args\<rparr> else r5)"

record update_output =
  uo_index :: int
  uo_original :: rule
  uo_updated :: rule

definition toolUpdateAutoLabelingRule ::
  "int option \<Rightarrow> rule_args \<Rightarrow> store \<Rightarrow> (error + update_output) \<times> store" where
  "toolUpdateAutoLabelingRule rule_index args st =
     (case rule_index of
        None \<Rightarrow> (Inl (McpError InvalidParams ''rule_index must be a non-negative number''), st)
      | Some i \<Rightarrow>
          if i < 0
          then (Inl (McpError InvalidParams ''rule_index must be a non-negative number''), st)
          else
            let rs = loadAutoLabelingRules st
            in if i \<ge> int (length rs)
               then (Inl (McpError InvalidRequest (out_of_range_msg i (length rs))), st)
               else
                 let originalRule = rs ! nat i;
                     r = rebuilt_query args (update_fields args originalRule);
                     r' = r\<lparr>updated := Val (now st)\<rparr>;
                     rs' = rs[nat i := r']
                 in case saveAutoLabelingRules rs' st of
                      (Some e, st') \<Rightarrow> (Inl (Thrown e), st')
                    | (None, st') \<Rightarrow>
                        (Inr \<lparr>uo_index = i, uo_original = originalRule, uo_updated = r'\<rparr>, st'))"

section \<open>The mailbox client\<close>

type_synonym msg_id = string
type_synonym label_id = string

record list_params =
  lp_q :: string
  lp_maxResults :: int
  lp_pageToken :: "string js"

record list_response =
  lr_messages :: "msg_id list js"
  lr_nextPageToken :: "string js"
  lr_resultSizeEstimate :: "nat js"

record message =
  msg_labelIds :: "label_id list js"
  msg_headers :: "(string \<times> string) list js"

record modify_body =
  mb_ids :: "msg_id list"
  mb_addLabelIds :: "label_id list js"
  mb_removeLabelIds :: "label_id list js"

record label =
  lbl_id :: label_id
  lbl_name :: string

text \<open>
  The remote client is a parameter: the tools are modelled after \<open>getGmail()\<close> has
  returned it. \<open>'mb\<close> is the state of the remote mailbox. A call that throws
  returns the exception's message (\<open>Inl\<close>, or \<open>Some\<close> for a call without a
  payload). Listing and reading calls leave the mailbox as it is; a modifying call
  returns the mailbox it leaves behind, also when it throws.
\<close>

record 'mb gmail =
  messages_list :: "'mb \<Rightarrow> list_params \<Rightarrow> string + list_response"
  messages_get :: "'mb \<Rightarrow> msg_id \<Rightarrow> string + message"
  messages_batchDelete :: "'mb \<Rightarrow> msg_id list \<Rightarrow> string option \<times> 'mb"
  messages_batchModify :: "'mb \<Rightarrow> modify_body \<Rightarrow> string option \<times> 'mb"
  messages_delete :: "'mb \<Rightarrow> msg_id \<Rightarrow> string option \<times> 'mb"
  messages_trash :: "'mb \<Rightarrow> msg_id \<Rightarrow> string option \<times> 'mb"
  labels_list :: "'mb \<Rightarrow> string + label list js"
  labels_create :: "'mb \<Rightarrow> string js \<Rightarrow> (string + label) \<times> 'mb"

text \<open>Every call a tool issues is recorded, with its response, in the order issued.\<close>

datatype call =
    MessagesList list_params "string + list_response"
  | MessagesGet msg_id "string + message"
  | BatchDelete "msg_id list" "string option"
  | BatchModify modify_body "string option"
  | MessagesDelete msg_id "string option"
  | MessagesTrash msg_id "string option"
  | LabelsList "string + label list js"
  | LabelsCreate "string js" "string + label"

record 'mb session =
  mailbox :: 'mb
  trace :: "call list"

definition call_list ::
  "'mb gmail \<Rightarrow> list_params \<Rightarrow> 'mb session \<Rightarrow> (string + list_response) \<times> 'mb session" where
  "call_list g p s =
     (let r = messages_list g (mailbox s) p
      in (r, s\<lparr>trace := trace s @ [MessagesList p r]\<rparr>))"

definition call_get ::
  "'mb gmail \<Rightarrow> msg_id \<Rightarrow> 'mb session \<Rightarrow> (string + message) \<times> 'mb session" where
  "call_get g i s =
     (let r = messages_get g (mailbox s) i
      in (r, s\<lparr>trace := trace s @ [MessagesGet i r]\<rparr>))"

definition call_batchDelete ::
  "'mb gmail \<Rightarrow> msg_id list \<Rightarrow> 'mb session \<Rightarrow> string option \<times> 'mb session" where
  "call_batchDelete g is s =
     (let (r, m) = messages_batchDelete g (mailbox s) is
      in (r, \<lparr>mailbox = m, trace = trace s @ [BatchDelete is r]\<rparr>))"

definition call_batchModify ::
  "'mb gmail \<Rightarrow> modify_body \<Rightarrow> 'mb session \<Rightarrow> string option \<times> 'mb session" where
  "call_batchModify g b s =
     (let (r, m) = messages_batchModify g (mailbox s) b
      in (r, \<lparr>mailbox = m, trace = trace s @ [BatchModify b r]\<rparr>))"



definition call_labels_list ::
  "'mb gmail \<Rightarrow> 'mb session \<Rightarrow> (string + label list js) \<times> 'mb session" where
  "call_labels_list g s =
     (let r = labels_list g (mailbox s)
      in (r, s\<lparr>trace := trace s @ [LabelsList r]\<rparr>))"

definition call_labels_create ::
  "'mb gmail \<Rightarrow> string js \<Rightarrow> 'mb session \<Rightarrow> (string + label) \<times> 'mb session" where
  "call_labels_create g n s =
     (let (r, m) = labels_create g (mailbox s) n
      in (r, \<lparr>mailbox = m, trace = trace s @ [LabelsCreate n r]\<rparr>))"

text \<open>
  \<open>Promise.all(ids.map(id => get(id)))\<close>: every request is issued; the responses come
  back in the order of \<open>ids\<close>.
\<close>

fun call_get_all ::
  "'mb gmail \<Rightarrow> msg_id list \<Rightarrow> 'mb session \<Rightarrow> (string + message) list \<times> 'mb session" where
  "call_get_all g [] s = ([], s)"
| "call_get_all g (i # is) s =
     (let (r, s1) = call_get g i s;
          (rs, s2) = call_get_all g is s1
      in (r # rs, s2))"

text \<open>
  The rejection of a \<open>Promise.all\<close>: the message of a failed request, if there is one
  (the first in list order), else all the payloads.
\<close>

fun all_settled :: "(string + 'a) list \<Rightarrow> string + 'a list" where
  "all_settled [] = Inr []"
| "all_settled (Inl e # rs) = Inl e"
| "all_settled (Inr x # rs) = (case all_settled rs of Inl e \<Rightarrow> Inl e | Inr xs \<Rightarrow> Inr (x # xs))"

section \<open>The batch executor\<close>

record batch_error =
  be_batch :: nat
  be_error :: string
  be_count :: nat

text \<open>
  The variables of the pagination loop: \<open>doneCount\<close> is \<open>deletedCount\<close> in the
  delete loop and \<open>labeledCount\<close> in the label loop, \<open>errs\<close> is \<open>errors\<close>.
\<close>

record loop_state =
  processedCount :: nat
  doneCount :: nat
  errorCount :: nat
  errs :: "batch_error list"
  nextPageToken :: "string js"

datatype loop_step = Break loop_state | Next loop_state | Raise string

text \<open>
  One iteration of the \<open>while\<close> loop that \<open>toolBulkDeleteEmails\<close> and
  \<open>toolBulkLabelEmails\<close> share word for word, up to the body of the \<open>try\<close> block:
  \<open>act\<close> is that body, returning the exception it throws, if any. An exception of
  the listing call is not caught and leaves the tool.
\<close>

definition loop_body ::
  "'mb gmail \<Rightarrow> (msg_id list \<Rightarrow> 'mb session \<Rightarrow> string option \<times> 'mb session) \<Rightarrow> string \<Rightarrow> nat \<Rightarrow>
   loop_state \<Rightarrow> 'mb session \<Rightarrow> loop_step \<times> 'mb session" where
  "loop_body g act q batchSize ls s =
     (let listParams = \<lparr>lp_q = q, lp_maxResults = int batchSize,
                         lp_pageToken = (if truthy_str (nextPageToken ls) then nextPageToken ls else Undefined)\<rparr>
      in case call_list g listParams s of
           (Inl e, s1) \<Rightarrow> (Raise e, s1)
         | (Inr batchList, s1) \<Rightarrow>
             let messages = or_empty (lr_messages batchList);
                 ls1 = ls\<lparr>nextPageToken := lr_nextPageToken batchList\<rparr>
             in if length messages = 0 then (Break ls1, s1)
                else
                  let (thrown, s2) = act messages s1;
                      ls2 = (case thrown of
                               None \<Rightarrow> ls1\<lparr>doneCount := doneCount ls1 + length messages\<rparr>
                             | Some e \<Rightarrow>
                                 ls1\<lparr>errorCount := errorCount ls1 + length messages,
                                     errs := errs ls1 @
                                       [\<lparr>be_batch = processedCount ls1 div batchSize + 1,
                                         be_error = e,
                                         be_count = length messages\<rparr>]\<rparr>);
                      ls3 = ls2\<lparr>processedCount := processedCount ls2 + length messages\<rparr>
                  in if \<not> truthy_str (nextPageToken ls3) then (Break ls3, s2) else (Next ls3, s2))"

lemma loop_body_Next_grows:
  "loop_body g act q batchSize ls s = (Next ls', s') \<Longrightarrow> processedCount ls < processedCount ls'"
  by (auto simp: loop_body_def Let_def call_list_def
           split: sum.splits prod.splits if_splits option.splits)

text \<open>\<open>while (processedCount < totalCount) { ... }\<close>\<close>

function page_loop ::
  "'mb gmail \<Rightarrow> (msg_id list \<Rightarrow> 'mb session \<Rightarrow> string option \<times> 'mb session) \<Rightarrow> string \<Rightarrow> nat \<Rightarrow> nat \<Rightarrow>
   loop_state \<Rightarrow> 'mb session \<Rightarrow> (string + loop_state) \<times> 'mb session" where
  "page_loop g act q totalCount batchSize ls s =
     (if processedCount ls < totalCount
      then case loop_body g act q batchSize ls s of
             (Raise e, s') \<Rightarrow> (Inl e, s')
           | (Break ls', s') \<Rightarrow> (Inr ls', s')
           | (Next ls', s') \<Rightarrow> page_loop g act q totalCount batchSize ls' s'
      else (Inr ls, s))"
  by pat_completeness auto
termination
  by (relation "measure (\<lambda>(g, act, q, totalCount, batchSize, ls, s). totalCount - processedCount ls)")
     (auto dest: loop_body_Next_grows [OF sym])

declare page_loop.simps [simp del]

definition init_loop_state :: loop_state where
  "init_loop_state =
     \<lparr>processedCount = 0, doneCount = 0, errorCount = 0, errs = [], nextPageToken = Null\<rparr>"

record dry_run_info =
  dr_query :: string
  dr_total_estimated :: nat
  dr_batch_size :: nat
  dr_estimated_batches :: nat

record batch_result =
  br_query :: string
  total_processed :: nat
  successful :: nat
  failed :: nat
  br_batch_size :: nat
  batches_processed :: nat
  br_errors :: "batch_error list js"

definition make_result :: "string \<Rightarrow> nat \<Rightarrow> loop_state \<Rightarrow> batch_result" where
  "make_result q batchSize ls =
     \<lparr>br_query = q,
      total_processed = processedCount ls,
      successful = doneCount ls,
      failed = errorCount ls,
      br_batch_size = batchSize,
      batches_processed = ceil_div (processedCount ls) batchSize,
      br_errors = (if length (errs ls) > 0 then Val (errs ls) else Undefined)\<rparr>"

text \<open>The probe both bulk tools start with: \<open>list({q: query, maxResults: 1})\<close>.\<close>

definition probe_params :: "string \<Rightarrow> list_params" where
  "probe_params q = \<lparr>lp_q = q, lp_maxResults = 1, lp_pageToken = Undefined\<rparr>"

fun nat_or_zero :: "nat js \<Rightarrow> nat" where
  "nat_or_zero (Val n) = n"
| "nat_or_zero _ = 0"

definition clamp :: "int \<Rightarrow> int \<Rightarrow> int \<Rightarrow> nat" where
  "clamp lo hi n = nat (max lo (min hi n))"

subsection \<open>\<open>toolBulkDeleteEmails\<close>\<close>

datatype delete_output =
    NoEmailsFound string
  | DryRun dry_run_info
  | Completed batch_result

text \<open>The \<open>try\<close> block of the delete loop.\<close>

definition delete_action ::
  "'mb gmail \<Rightarrow> bool \<Rightarrow> msg_id list \<Rightarrow> 'mb session \<Rightarrow> string option \<times> 'mb session" where
  "delete_action g permanent messageIds s =
     (if permanent then call_batchDelete g messageIds s
      else call_batchModify g
             \<lparr>mb_ids = messageIds, mb_addLabelIds = Val [''TRASH''], mb_removeLabelIds = Undefined\<rparr> s)"

text \<open>\<open>Number(batch_size || 100)\<close>, the schema declaring a number.\<close>

fun delete_batch_size :: "int js \<Rightarrow> int" where
  "delete_batch_size (Val n) = (if n = 0 then 100 else n)"
| "delete_batch_size _ = 100"

definition toolBulkDeleteEmails ::
  "'mb gmail \<Rightarrow> string js \<Rightarrow> int js \<Rightarrow> bool js \<Rightarrow> bool js \<Rightarrow> 'mb session \<Rightarrow>
   (error + delete_output) \<times> 'mb session" where
  "toolBulkDeleteEmails g query_arg batch_size permanent dry_run s =
     (if \<not> truthy_str query_arg then (Inl (McpError InvalidParams ''query is required''), s)
      else
        let q = str_of query_arg;
            batchSize = clamp 10 500 (delete_batch_size batch_size)
        in case call_list g (probe_params q) s of
             (Inl e, s1) \<Rightarrow> (Inl (Thrown e), s1)
           | (Inr list, s1) \<Rightarrow>
               let totalCount = nat_or_zero (lr_resultSizeEstimate list)
               in if totalCount = 0 then (Inr (NoEmailsFound q), s1)
                  else if truthy_bool dry_run
                  then (Inr (DryRun \<lparr>dr_query = q, dr_total_estimated = totalCount,
                                      dr_batch_size = batchSize,
                                      dr_estimated_batches = ceil_div totalCount batchSize\<rparr>), s1)
                  else
                    case page_loop g (delete_action g (truthy_bool permanent)) q totalCount batchSize
                           init_loop_state s1 of
                      (Inl e, s2) \<Rightarrow> (Inl (Thrown e), s2)
                    | (Inr ls, s2) \<Rightarrow> (Inr (Completed (make_result q batchSize ls)), s2))"

subsection \<open>\<open>toolBulkLabelEmails\<close>\<close>

definition systemLabels :: "label_id list" where
  "systemLabels =
     [''INBOX'', ''SENT'', ''DRAFT'', ''SPAM'', ''TRASH'', ''IMPORTANT'', ''STARRED'', ''UNREAD'']"

text \<open>The request body of the replace operation, from the messages just read.\<close>

definition replace_body :: "label_id list \<Rightarrow> msg_id list \<Rightarrow> message list \<Rightarrow> modify_body" where
  "replace_body label_ids messageIds msgs =
     (let allCurrentLabels = map (\<lambda>msg. or_empty (msg_labelIds msg)) msgs;
          userLabelsToRemove = filter (\<lambda>labelId. labelId \<notin> set systemLabels) (concat allCurrentLabels)
      in \<lparr>mb_ids = messageIds,
          mb_addLabelIds = Val label_ids,
          mb_removeLabelIds = Val (new_Set userLabelsToRemove)\<rparr>)"

text \<open>The \<open>try\<close> block of the label loop.\<close>

definition label_action ::
  "'mb gmail \<Rightarrow> string js \<Rightarrow> label_id list \<Rightarrow> msg_id list \<Rightarrow> 'mb session \<Rightarrow>
   string option \<times> 'mb session" where
  "label_action g operation label_ids messageIds s =
     (if operation = Val ''add''
      then call_batchModify g
             \<lparr>mb_ids = messageIds, mb_addLabelIds = Val label_ids, mb_removeLabelIds = Undefined\<rparr> s
      else if operation = Val ''remove''
      then call_batchModify g
             \<lparr>mb_ids = messageIds, mb_addLabelIds = Undefined, mb_removeLabelIds = Val label_ids\<rparr> s
      else if operation = Val ''replace''
      then
        let (rs, s1) = call_get_all g messageIds s
        in case all_settled rs of
             Inl e \<Rightarrow> (Some e, s1)
           | Inr msgs \<Rightarrow> call_batchModify g (replace_body label_ids messageIds msgs) s1
      else call_batchModify g
             \<lparr>mb_ids = messageIds, mb_addLabelIds = Undefined, mb_removeLabelIds = Undefined\<rparr> s)"

datatype label_output =
    LabelNoEmailsFound string
  | LabelDryRun dry_run_info "string js" "label_id list"
  | LabelCompleted batch_result "string js" "label_id list"

text \<open>\<open>Number(batch_size)\<close> with the default 100 of the parameter.\<close>

fun label_batch_size :: "int js \<Rightarrow> int" where
  "label_batch_size Undefined = 100"
| "label_batch_size Null = 0"
| "label_batch_size (Val n) = n"

definition toolBulkLabelEmails ::
  "'mb gmail \<Rightarrow> string js \<Rightarrow> label_id list js \<Rightarrow> string js \<Rightarrow> int js \<Rightarrow> bool js \<Rightarrow> 'mb session \<Rightarrow>
   (error + label_output) \<times> 'mb session" where
  "toolBulkLabelEmails g query_arg label_ids_arg operation_arg batch_size dry_run s =
     (if \<not> truthy_str query_arg then (Inl (McpError InvalidParams ''query is required''), s)
      else if \<not> nonempty_array label_ids_arg
      then (Inl (McpError InvalidParams ''label_ids array is required''), s)
      else
        let q = str_of query_arg;
            label_ids = or_empty label_ids_arg;
            operation = (case operation_arg of Undefined \<Rightarrow> Val ''add'' | x \<Rightarrow> x);
            batchSize = clamp 10 500 (label_batch_size batch_size)
        in case call_list g (probe_params q) s of
             (Inl e, s1) \<Rightarrow> (Inl (Thrown e), s1)
           | (Inr list, s1) \<Rightarrow>
               let totalCount = nat_or_zero (lr_resultSizeEstimate list)
               in if totalCount = 0 then (Inr (LabelNoEmailsFound q), s1)
                  else if truthy_bool dry_run
                  then (Inr (LabelDryRun \<lparr>dr_query = q, dr_total_estimated = totalCount,
                                           dr_batch_size = batchSize,
                                           dr_estimated_batches = ceil_div totalCount batchSize\<rparr>
                               operation label_ids), s1)
                  else
                    case page_loop g (label_action g operation label_ids) q totalCount batchSize
                           init_loop_state s1 of
                      (Inl e, s2) \<Rightarrow> (Inl (Thrown e), s2)
                    | (Inr ls, s2) \<Rightarrow>
                        (Inr (LabelCompleted (make_result q batchSize ls) operation label_ids), s2))"

subsection \<open>\<open>toolDeleteEmailsByQuery\<close>\<close>











section \<open>Applying rules\<close>

record rule_result =
  rr_rule :: "string js"
  rr_label_id :: label_id
  rr_emails_found :: nat
  rr_emails_labeled :: "nat js"
  rr_batches_processed :: "nat js"
  rr_status :: string
  rr_query :: "string js"

record rule_error =
  re_rule :: "string js"
  re_error :: string

datatype outcome = Result rule_result | Failure rule_error

text \<open>\<open>results.push\<close> or \<open>errors.push\<close>.\<close>

fun record_outcome ::
  "outcome \<Rightarrow> rule_result list \<times> rule_error list \<Rightarrow> rule_result list \<times> rule_error list" where
  "record_outcome (Result r) (results, errors) = (results @ [r], errors)"
| "record_outcome (Failure e) (results, errors) = (results, errors @ [e])"

text \<open>
  Find or create the label: the label list is read on every call; a label named as the
  rule says is taken, else one is created.
\<close>

definition resolve_label ::
  "'mb gmail \<Rightarrow> string js \<Rightarrow> 'mb session \<Rightarrow> (string + label_id) \<times> 'mb session" where
  "resolve_label g name s =
     (case call_labels_list g s of
        (Inl e, s1) \<Rightarrow> (Inl e, s1)
      | (Inr labels, s1) \<Rightarrow>
          (case find (\<lambda>l. Val (lbl_name l) = name) (or_empty labels) of
             Some existingLabel \<Rightarrow> (Inr (lbl_id existingLabel), s1)
           | None \<Rightarrow>
               (case call_labels_create g name s1 of
                  (Inl e, s2) \<Rightarrow> (Inl e, s2)
                | (Inr newLabel, s2) \<Rightarrow> (Inr (lbl_id newLabel), s2))))"

definition add_label_body :: "msg_id list \<Rightarrow> label_id \<Rightarrow> modify_body" where
  "add_label_body ids labelId =
     \<lparr>mb_ids = ids, mb_addLabelIds = Val [labelId], mb_removeLabelIds = Undefined\<rparr>"

subsection \<open>\<open>toolAutoLabelEmails\<close>\<close>

text \<open>The body of the \<open>for\<close> loop: one rule, the \<open>catch\<close> included.\<close>

definition autoLabel_rule :: "'mb gmail \<Rightarrow> bool \<Rightarrow> rule \<Rightarrow> 'mb session \<Rightarrow> outcome \<times> 'mb session" where
  "autoLabel_rule g dry_run r s =
     (let q = autoLabel_query r
      in if q = []
         then (Failure \<lparr>re_rule = label_name r,
                        re_error = ''No search criteria provided (need sender_pattern, subject_pattern, or query)''\<rparr>, s)
         else
           case resolve_label g (label_name r) s of
             (Inl e, s1) \<Rightarrow> (Failure \<lparr>re_rule = label_name r, re_error = e\<rparr>, s1)
           | (Inr labelId, s1) \<Rightarrow>
               (case call_list g \<lparr>lp_q = q, lp_maxResults = 100, lp_pageToken = Undefined\<rparr> s1 of
                  (Inl e, s2) \<Rightarrow> (Failure \<lparr>re_rule = label_name r, re_error = e\<rparr>, s2)
                | (Inr list, s2) \<Rightarrow>
                    let messages = or_empty (lr_messages list)
                    in if length messages = 0
                       then (Result \<lparr>rr_rule = label_name r, rr_label_id = labelId, rr_emails_found = 0,
                                     rr_emails_labeled = Undefined, rr_batches_processed = Undefined,
                                     rr_status = ''no_emails_found'', rr_query = Undefined\<rparr>, s2)
                       else if dry_run
                       then (Result \<lparr>rr_rule = label_name r, rr_label_id = labelId,
                                     rr_emails_found = length messages,
                                     rr_emails_labeled = Undefined, rr_batches_processed = Undefined,
                                     rr_status = ''dry_run'', rr_query = Val q\<rparr>, s2)
                       else
                         case call_batchModify g (add_label_body messages labelId) s2 of
                           (Some e, s3) \<Rightarrow> (Failure \<lparr>re_rule = label_name r, re_error = e\<rparr>, s3)
                         | (None, s3) \<Rightarrow>
                             (Result \<lparr>rr_rule = label_name r, rr_label_id = labelId,
                                      rr_emails_found = length messages,
                                      rr_emails_labeled = Val (length messages),
                                      rr_batches_processed = Undefined,
                                      rr_status = ''labeled'', rr_query = Val q\<rparr>, s3)))"

fun autoLabel_loop ::
  "'mb gmail \<Rightarrow> bool \<Rightarrow> rule list \<Rightarrow> rule_result list \<times> rule_error list \<Rightarrow> 'mb session \<Rightarrow>
   (rule_result list \<times> rule_error list) \<times> 'mb session" where
  "autoLabel_loop g dry_run [] acc s = (acc, s)"
| "autoLabel_loop g dry_run (r # rs) acc s =
     (let (oc, s1) = autoLabel_rule g dry_run r s
      in autoLabel_loop g dry_run rs (record_outcome oc acc) s1)"

record autolabel_summary =
  al_rules_processed :: nat
  al_successful :: nat
  al_failed :: nat
  al_results :: "rule_result list"
  al_errors :: "rule_error list js"

definition toolAutoLabelEmails ::
  "'mb gmail \<Rightarrow> rule list js \<Rightarrow> bool js \<Rightarrow> 'mb session \<Rightarrow>
   (error + autolabel_summary) \<times> 'mb session" where
  "toolAutoLabelEmails g rules_arg dry_run s =
     (if \<not> nonempty_array rules_arg
      then (Inl (McpError InvalidParams ''rules array is required''), s)
      else
        let rs = or_empty rules_arg;
            ((results, errors), s1) = autoLabel_loop g (truthy_bool dry_run) rs ([], []) s
        in (Inr \<lparr>al_rules_processed = length rs,
                 al_successful = length results, al_failed = length errors,
                 al_results = results,
                 al_errors = (if length errors > 0 then Val errors else Undefined)\<rparr>, s1))"

subsection \<open>\<open>toolRunAutoLabelingRules\<close>\<close>

text \<open>A numeric argument with a default: the default replaces \<open>undefined\<close> only.\<close>

fun num_default :: "int \<Rightarrow> int js \<Rightarrow> int" where
  "num_default d Undefined = d"
| "num_default d Null = 0"
| "num_default d (Val n) = n"

record fetch_state =
  totalEmailsFound :: nat
  allMessageIds :: "msg_id list"
  f_nextPageToken :: "string js"
  batchCount :: nat

datatype fetch_step = FBreak fetch_state | FNext fetch_state | FRaise string

text \<open>One iteration of \<open>while (batchCount < max_batches)\<close>.\<close>

definition fetch_body ::
  "'mb gmail \<Rightarrow> string \<Rightarrow> int \<Rightarrow> fetch_state \<Rightarrow> 'mb session \<Rightarrow> fetch_step \<times> 'mb session" where
  "fetch_body g q batch_size fs s =
     (let listParams = \<lparr>lp_q = q, lp_maxResults = min batch_size 500,
                         lp_pageToken = (if truthy_str (f_nextPageToken fs) then f_nextPageToken fs
                                         else Undefined)\<rparr>
      in case call_list g listParams s of
           (Inl e, s1) \<Rightarrow> (FRaise e, s1)
         | (Inr list, s1) \<Rightarrow>
             let messages = or_empty (lr_messages list)
             in if length messages = 0 then (FBreak fs, s1)
                else
                  let fs1 = fs\<lparr>totalEmailsFound := totalEmailsFound fs + length messages,
                               allMessageIds := allMessageIds fs @ messages,
                               f_nextPageToken := lr_nextPageToken list\<rparr>
                  in if \<not> truthy_str (f_nextPageToken fs1) then (FBreak fs1, s1)
                     else (FNext (fs1\<lparr>batchCount := batchCount fs1 + 1\<rparr>), s1))"

lemma fetch_body_FNext_counts:
  "fetch_body g q batch_size fs s = (FNext fs', s') \<Longrightarrow> batchCount fs' = batchCount fs + 1"
  by (auto simp: fetch_body_def Let_def split: sum.splits prod.splits if_splits)

function fetch_loop ::
  "'mb gmail \<Rightarrow> string \<Rightarrow> int \<Rightarrow> int \<Rightarrow> fetch_state \<Rightarrow> 'mb session \<Rightarrow>
   (string + fetch_state) \<times> 'mb session" where
  "fetch_loop g q batch_size max_batches fs s =
     (if int (batchCount fs) < max_batches
      then case fetch_body g q batch_size fs s of
             (FRaise e, s') \<Rightarrow> (Inl e, s')
           | (FBreak fs', s') \<Rightarrow> (Inr fs', s')
           | (FNext fs', s') \<Rightarrow> fetch_loop g q batch_size max_batches fs' s'
      else (Inr fs, s))"
  by pat_completeness auto
termination
  by (relation "measure (\<lambda>(g, q, batch_size, max_batches, fs, s). nat (max_batches - int (batchCount fs)))")
     (auto dest: fetch_body_FNext_counts [OF sym])

declare fetch_loop.simps [simp del]

text \<open>
  \<open>for (let i = 0; i < allMessageIds.length; i += 1000)\<close>: \<open>ids\<close> is what is left
  from \<open>i\<close> on. An exception of the call ends the loop.
\<close>

function apply_chunks ::
  "'mb gmail \<Rightarrow> label_id \<Rightarrow> msg_id list \<Rightarrow> nat \<Rightarrow> 'mb session \<Rightarrow> (string + nat) \<times> 'mb session" where
  "apply_chunks g labelId ids totalEmailsLabeled s =
     (if ids = [] then (Inr totalEmailsLabeled, s)
      else
        let batchIds = take 1000 ids
        in case call_batchModify g (add_label_body batchIds labelId) s of
             (Some e, s1) \<Rightarrow> (Inl e, s1)
           | (None, s1) \<Rightarrow>
               apply_chunks g labelId (drop 1000 ids) (totalEmailsLabeled + length batchIds) s1)"
  by pat_completeness auto
termination
  by (relation "measure (\<lambda>(g, labelId, ids, n, s). length ids)") auto

declare apply_chunks.simps [simp del]

text \<open>
  The body of the \<open>for\<close> loop over the enabled rules, the \<open>catch\<close> included. The
  rules in memory are the array \<open>rules\<close> that was loaded; \<open>i\<close> is the place of the
  rule in it, since the loop writes \<open>last_run\<close> into that very object and saves the whole
  array.
\<close>

definition run_rule ::
  "'mb gmail \<Rightarrow> bool \<Rightarrow> int \<Rightarrow> int \<Rightarrow> nat \<Rightarrow> rule list \<times> store \<times> 'mb session \<Rightarrow>
   outcome \<times> rule list \<times> store \<times> 'mb session" where
  "run_rule g dry_run batch_size max_batches i w =
     (case w of (mem, st, s) \<Rightarrow>
      let r = mem ! i
      in case resolve_label g (label_name r) s of
           (Inl e, s1) \<Rightarrow> (Failure \<lparr>re_rule = label_name r, re_error = e\<rparr>, mem, st, s1)
         | (Inr labelId, s1) \<Rightarrow>
             let searchQuery = run_searchQuery r
             in if \<not> truthy_str searchQuery
                then (Result \<lparr>rr_rule = label_name r, rr_label_id = labelId, rr_emails_found = 0,
                              rr_emails_labeled = Undefined, rr_batches_processed = Undefined,
                              rr_status = ''no_search_criteria'', rr_query = Undefined\<rparr>, mem, st, s1)
                else
                  case fetch_loop g (str_of searchQuery) batch_size max_batches
                         \<lparr>totalEmailsFound = 0, allMessageIds = [], f_nextPageToken = Null,
                          batchCount = 0\<rparr> s1 of
                    (Inl e, s2) \<Rightarrow> (Failure \<lparr>re_rule = label_name r, re_error = e\<rparr>, mem, st, s2)
                  | (Inr fs, s2) \<Rightarrow>
                      if totalEmailsFound fs = 0
                      then (Result \<lparr>rr_rule = label_name r, rr_label_id = labelId, rr_emails_found = 0,
                                    rr_emails_labeled = Undefined, rr_batches_processed = Undefined,
                                    rr_status = ''no_emails_found'', rr_query = Undefined\<rparr>, mem, st, s2)
                      else if dry_run
                      then (Result \<lparr>rr_rule = label_name r, rr_label_id = labelId,
                                    rr_emails_found = totalEmailsFound fs,
                                    rr_emails_labeled = Undefined,
                                    rr_batches_processed = Val (batchCount fs + 1),
                                    rr_status = ''dry_run'', rr_query = searchQuery\<rparr>, mem, st, s2)
                      else
                        case apply_chunks g labelId (allMessageIds fs) 0 s2 of
                          (Inl e, s3) \<Rightarrow> (Failure \<lparr>re_rule = label_name r, re_error = e\<rparr>, mem, st, s3)
                        | (Inr totalEmailsLabeled, s3) \<Rightarrow>
                            let mem' = mem[i := r\<lparr>last_run := Val (now st)\<rparr>]
                            in case saveAutoLabelingRules mem' st of
                                 (Some e, st') \<Rightarrow>
                                   (Failure \<lparr>re_rule = label_name r, re_error = e\<rparr>, mem', st', s3)
                               | (None, st') \<Rightarrow>
                                   (Result \<lparr>rr_rule = label_name r, rr_label_id = labelId,
                                            rr_emails_found = totalEmailsFound fs,
                                            rr_emails_labeled = Val totalEmailsLabeled,
                                            rr_batches_processed = Val (batchCount fs + 1),
                                            rr_status = ''labeled'', rr_query = searchQuery\<rparr>,
                                    mem', st', s3))"

fun run_loop ::
  "'mb gmail \<Rightarrow> bool \<Rightarrow> int \<Rightarrow> int \<Rightarrow> nat list \<Rightarrow> rule_result list \<times> rule_error list \<Rightarrow>
   rule list \<times> store \<times> 'mb session \<Rightarrow>
   (rule_result list \<times> rule_error list) \<times> rule list \<times> store \<times> 'mb session" where
  "run_loop g dry_run batch_size max_batches [] acc w = (acc, w)"
| "run_loop g dry_run batch_size max_batches (i # is) acc w =
     (let (oc, w1) = run_rule g dry_run batch_size max_batches i w
      in run_loop g dry_run batch_size max_batches is (record_outcome oc acc) w1)"

text \<open>\<open>rules.filter(rule => rule.enabled !== false)\<close>, as places in \<open>rules\<close>.\<close>

definition enabledRules :: "rule list \<Rightarrow> nat list" where
  "enabledRules rs = filter (\<lambda>i. enabled (rs ! i) \<noteq> Val False) [0 ..< length rs]"

record run_summary =
  rs_total_rules :: nat
  rs_enabled_rules :: nat
  rs_processed :: nat
  rs_failed :: nat
  rs_results :: "rule_result list"
  rs_errors :: "rule_error list js"

datatype run_output = NoEnabledRules nat | RunDone run_summary

definition toolRunAutoLabelingRules ::
  "'mb gmail \<Rightarrow> bool js \<Rightarrow> int js \<Rightarrow> int js \<Rightarrow> store \<times> 'mb session \<Rightarrow>
   run_output \<times> store \<times> 'mb session" where
  "toolRunAutoLabelingRules g dry_run_arg batch_size_arg max_batches_arg w =
     (case w of (st, s) \<Rightarrow>
      let dry_run = (case dry_run_arg of Undefined \<Rightarrow> False | x \<Rightarrow> truthy_bool x);
          batch_size = num_default 100 batch_size_arg;
          max_batches = num_default 10 max_batches_arg;
          rs = loadAutoLabelingRules st;
          enabled_is = enabledRules rs
      in if length enabled_is = 0 then (NoEnabledRules (length rs), st, s)
         else
           let ((results, errors), (mem, st', s')) =
                 run_loop g dry_run batch_size max_batches enabled_is ([], []) (rs, st, s)
           in (RunDone \<lparr>rs_total_rules = length rs, rs_enabled_rules = length enabled_is,
                        rs_processed = length results, rs_failed = length errors,
                        rs_results = results,
                        rs_errors = (if length errors > 0 then Val errors else Undefined)\<rparr>, st', s'))"

section \<open>Reading a run off the trace\<close>

text \<open>The pages the listing calls of a trace returned, in order.\<close>

fun listed :: "call list \<Rightarrow> list_response list" where
  "listed [] = []"
| "listed (MessagesList p (Inr r) # cs) = r # listed cs"
| "listed (c # cs) = listed cs"

text \<open>The number of messages on a page, and whether it carries a next-page token.\<close>

definition page_size :: "list_response \<Rightarrow> nat" where
  "page_size p = length (or_empty (lr_messages p))"

definition has_next :: "list_response \<Rightarrow> bool" where
  "has_next p = truthy_str (lr_nextPageToken p)"

text \<open>
  The pages a loop with the bound \<open>E\<close> fetches when \<open>n\<close> messages are processed
  already: none if \<open>n\<close> has reached \<open>E\<close>; else a page is fetched, which is the last
  one if it is empty or carries no token, and else the loop goes on with \<open>n\<close> raised by
  the size of the page.
\<close>

fun loop_pages :: "nat \<Rightarrow> nat \<Rightarrow> list_response list \<Rightarrow> bool" where
  "loop_pages E n [] = (E \<le> n)"
| "loop_pages E n (p # ps) =
     (n < E \<and> (if page_size p = 0 \<or> \<not> has_next p then ps = []
               else loop_pages E (n + page_size p) ps))"

text \<open>
  The counters of the loop (processed, successful, failed, error entries), and what a list
  of pages does to them. A page is given by its size and the exception of its batch
  action, if any: it adds its whole size to the processed count and either to the
  successes, or to the failures together with one error entry holding the batch index, the
  message and the size.
\<close>

type_synonym counts = "nat \<times> nat \<times> nat \<times> batch_error list"

definition counts :: "loop_state \<Rightarrow> counts" where
  "counts ls = (processedCount ls, doneCount ls, errorCount ls, errs ls)"

fun tally :: "nat \<Rightarrow> counts \<Rightarrow> (nat \<times> string option) list \<Rightarrow> counts" where
  "tally bs c [] = c"
| "tally bs (processed, ok, bad, es) ((n, None) # rest) =
     tally bs (processed + n, ok + n, bad, es) rest"
| "tally bs (processed, ok, bad, es) ((n, Some e) # rest) =
     tally bs (processed + n, ok, bad + n,
               es @ [\<lparr>be_batch = processed div bs + 1, be_error = e, be_count = n\<rparr>]) rest"

text \<open>An action on a page that issues no listing call.\<close>

definition quiet :: "(msg_id list \<Rightarrow> 'mb session \<Rightarrow> string option \<times> 'mb session) \<Rightarrow> bool" where
  "quiet act = (\<forall>ids s. listed (trace (snd (act ids s))) = listed (trace s))"

text \<open>The bodies of the batch-modify calls of a trace, in order.\<close>

fun modify_calls :: "call list \<Rightarrow> modify_body list" where
  "modify_calls [] = []"
| "modify_calls (BatchModify b r # cs) = b # modify_calls cs"
| "modify_calls (c # cs) = modify_calls cs"

text \<open>
  A request body that removes no system label and adds \<open>label_ids\<close>; an action on a
  page all of whose batch-modify calls satisfy \<open>P\<close>.
\<close>

definition spares_system_labels :: "label_id list \<Rightarrow> modify_body \<Rightarrow> bool" where
  "spares_system_labels label_ids b =
     (set (or_empty (mb_removeLabelIds b)) \<inter> set systemLabels = {} \<and>
      mb_addLabelIds b = Val label_ids)"

definition adds_only ::
  "(modify_body \<Rightarrow> bool) \<Rightarrow> (msg_id list \<Rightarrow> 'mb session \<Rightarrow> string option \<times> 'mb session) \<Rightarrow> bool" where
  "adds_only P act =
     (\<forall>ids s. \<exists>new. modify_calls (trace (snd (act ids s))) = modify_calls (trace s) @ new \<and>
                      (\<forall>b \<in> set new. P b))"








text \<open>The calls that list or read, and the calls that create a label.\<close>

fun is_read :: "call \<Rightarrow> bool" where
  "is_read (MessagesList p r) = True"
| "is_read (MessagesGet i r) = True"
| "is_read (LabelsList r) = True"
| "is_read c = False"

fun is_create :: "call \<Rightarrow> bool" where
  "is_create (LabelsCreate n r) = True"
| "is_create c = False"

text \<open>
  From \<open>s\<close> to \<open>s'\<close> only listing, reading and label-creating calls were issued, and
  the mailbox is the same if no label was created.
\<close>

definition reads_or_creates :: "'mb session \<Rightarrow> 'mb session \<Rightarrow> bool" where
  "reads_or_creates s s' =
     (\<exists>cs. trace s' = trace s @ cs \<and> (\<forall>c \<in> set cs. is_read c \<or> is_create c) \<and>
           ((\<forall>c \<in> set cs. is_read c) \<longrightarrow> mailbox s' = mailbox s))"

text \<open>The exception a call threw, if it threw.\<close>

fun call_error :: "call \<Rightarrow> string option" where
  "call_error (MessagesList p r) = (case r of Inl e \<Rightarrow> Some e | Inr x \<Rightarrow> None)"
| "call_error (MessagesGet i r) = (case r of Inl e \<Rightarrow> Some e | Inr x \<Rightarrow> None)"
| "call_error (BatchDelete is r) = r"
| "call_error (BatchModify b r) = r"
| "call_error (MessagesDelete i r) = r"
| "call_error (MessagesTrash i r) = r"
| "call_error (LabelsList r) = (case r of Inl e \<Rightarrow> Some e | Inr x \<Rightarrow> None)"
| "call_error (LabelsCreate n r) = (case r of Inl e \<Rightarrow> Some e | Inr x \<Rightarrow> None)"

text \<open>
  A sequence of calls made up to the first exception: either every call returned, or the
  last one threw \<open>e\<close> and the ones before returned.
\<close>

definition attempt :: "call list \<Rightarrow> string option \<Rightarrow> bool" where
  "attempt cs thrown =
     (case thrown of
        None \<Rightarrow> (\<forall>c \<in> set cs. call_error c = None)
      | Some e \<Rightarrow> cs \<noteq> [] \<and> call_error (last cs) = Some e \<and>
                  (\<forall>c \<in> set (butlast cs). call_error c = None))"

text \<open>The exception a result stands for, and the one a step of the fetch loop raised.\<close>

fun thrown_of :: "string + 'a \<Rightarrow> string option" where
  "thrown_of (Inl e) = Some e"
| "thrown_of (Inr x) = None"

fun fetch_thrown :: "fetch_step \<Rightarrow> string option" where
  "fetch_thrown (FRaise e) = Some e"
| "fetch_thrown st = None"

text \<open>The exceptions thrown by the calls of a trace, in order.\<close>

fun thrown_in :: "call list \<Rightarrow> string list" where
  "thrown_in [] = []"
| "thrown_in (c # cs) = (case call_error c of None \<Rightarrow> thrown_in cs | Some e \<Rightarrow> e # thrown_in cs)"

section \<open>Outcomes of rules\<close>

text \<open>
  The label name an outcome carries, the error messages it records, a rule without any
  search criteria, and the outcomes such a rule gets.
\<close>

fun outcome_rule :: "outcome \<Rightarrow> string js" where
  "outcome_rule (Result r) = rr_rule r"
| "outcome_rule (Failure e) = re_rule e"

definition no_search_criteria :: "rule \<Rightarrow> bool" where
  "no_search_criteria r =
     (\<not> truthy_str (query r) \<and> \<not> truthy_str (sender_pattern r) \<and>
      \<not> truthy_str (subject_pattern r) \<and> \<not> nonempty_array (subject_contains r))"

fun outcome_errors :: "outcome \<Rightarrow> string list" where
  "outcome_errors (Result r) = []"
| "outcome_errors (Failure e) = [re_error e]"

definition no_criteria_args :: "rule_args \<Rightarrow> bool" where
  "no_criteria_args args =
     (\<not> truthy_str (a_query args) \<and> \<not> truthy_str (a_sender_pattern args) \<and>
      \<not> truthy_str (a_subject_pattern args) \<and> \<not> nonempty_array (a_subject_contains args))"

definition no_criteria_error :: "rule \<Rightarrow> rule_error" where
  "no_criteria_error r =
     \<lparr>re_rule = label_name r,
      re_error = ''No search criteria provided (need sender_pattern, subject_pattern, or query)''\<rparr>"

definition no_criteria_result :: "rule \<Rightarrow> label_id \<Rightarrow> rule_result" where
  "no_criteria_result r labelId =
     \<lparr>rr_rule = label_name r, rr_label_id = labelId, rr_emails_found = 0,
      rr_emails_labeled = Undefined, rr_batches_processed = Undefined,
      rr_status = ''no_search_criteria'', rr_query = Undefined\<rparr>"

text \<open>
  The error entries and the names of the results of a run, from the label name of each
  rule and the calls issued for it: a rule one of whose calls threw has the error entry
  with its name and that exception, any other rule has a result.
\<close>

fun rule_errors :: "(string js \<times> call list) list \<Rightarrow> rule_error list" where
  "rule_errors [] = []"
| "rule_errors ((n, cs) # rest) =
     (case thrown_in cs of
        [] \<Rightarrow> rule_errors rest
      | e # es \<Rightarrow> \<lparr>re_rule = n, re_error = e\<rparr> # rule_errors rest)"

fun rule_successes :: "(string js \<times> call list) list \<Rightarrow> string js list" where
  "rule_successes [] = []"
| "rule_successes ((n, cs) # rest) =
     (case thrown_in cs of
        [] \<Rightarrow> n # rule_successes rest
      | e # es \<Rightarrow> rule_successes rest)"

section \<open>A simulated mailbox\<close>

text \<open>
  A small mailbox to run the tools on: every query matches every message, pages are cut
  from the fixed message list, the page token of an offset is that many characters long,
  and the estimate, the failure of batch calls, of single calls and of searches are set
  by hand.
\<close>

record sim =
  sim_msgs :: "(msg_id \<times> label_id list) list"
  sim_labels :: "label list"
  sim_estimate :: nat
  sim_batch_error :: "string option"
  sim_item_errors :: "msg_id list"
  sim_bad_queries :: "string list"
  sim_gone :: "msg_id list"

definition sim_list :: "sim \<Rightarrow> list_params \<Rightarrow> string + list_response" where
  "sim_list m p =
     (let off = length (str_of (lp_pageToken p));
          n = nat (lp_maxResults p);
          ids = map fst (sim_msgs m)
      in if lp_q p \<in> set (sim_bad_queries m) then Inl ''Invalid query''
         else Inr \<lparr>lr_messages = Val (take n (drop off ids)),
                lr_nextPageToken = (if off + n < length ids then Val (replicate (off + n) CHR ''x'')
                                    else Undefined),
                lr_resultSizeEstimate = Val (sim_estimate m)\<rparr>)"

definition sim_get :: "sim \<Rightarrow> msg_id \<Rightarrow> string + message" where
  "sim_get m i =
     (case map_of (sim_msgs m) i of
        None \<Rightarrow> Inl ''Not Found''
      | Some ls \<Rightarrow> Inr \<lparr>msg_labelIds = Val ls, msg_headers = Undefined\<rparr>)"

definition sim_batchDelete :: "sim \<Rightarrow> msg_id list \<Rightarrow> string option \<times> sim" where
  "sim_batchDelete m is =
     (case sim_batch_error m of
        Some e \<Rightarrow> (Some e, m)
      | None \<Rightarrow> (None, m\<lparr>sim_gone := sim_gone m @ is\<rparr>))"

definition sim_relabel :: "modify_body \<Rightarrow> msg_id \<times> label_id list \<Rightarrow> msg_id \<times> label_id list" where
  "sim_relabel b x =
     (if fst x \<in> set (mb_ids b)
      then (fst x, filter (\<lambda>l. l \<notin> set (or_empty (mb_removeLabelIds b))) (snd x) @ or_empty (mb_addLabelIds b))
      else x)"

definition sim_batchModify :: "sim \<Rightarrow> modify_body \<Rightarrow> string option \<times> sim" where
  "sim_batchModify m b =
     (case sim_batch_error m of
        Some e \<Rightarrow> (Some e, m)
      | None \<Rightarrow> (None, m\<lparr>sim_msgs := map (sim_relabel b) (sim_msgs m)\<rparr>))"

definition sim_remove :: "sim \<Rightarrow> msg_id \<Rightarrow> string option \<times> sim" where
  "sim_remove m i =
     (if i \<in> set (sim_item_errors m) then (Some ''item failed'', m)
      else (None, m\<lparr>sim_gone := sim_gone m @ [i]\<rparr>))"

definition sim_labels_create :: "sim \<Rightarrow> string js \<Rightarrow> (string + label) \<times> sim" where
  "sim_labels_create m n =
     (let l = \<lparr>lbl_id = ''Label_'' @ str_of n, lbl_name = str_of n\<rparr>
      in (Inr l, m\<lparr>sim_labels := sim_labels m @ [l]\<rparr>))"

definition sim_gmail :: "sim gmail" where
  "sim_gmail =
     \<lparr>messages_list = sim_list,
      messages_get = sim_get,
      messages_batchDelete = sim_batchDelete,
      messages_batchModify = sim_batchModify,
      messages_delete = sim_remove,
      messages_trash = sim_remove,
      labels_list = (\<lambda>m. Inr (Val (sim_labels m))),
      labels_create = sim_labels_create\<rparr>"

definition twelve :: "(msg_id \<times> label_id list) list" where
  "twelve =
     map (\<lambda>i. (i, [''INBOX'']))
       [''a'', ''b'', ''c'', ''d'', ''e'', ''f'', ''g'', ''h'', ''i'', ''j'', ''k'', ''l'']"

definition sim0 :: sim where
  "sim0 = \<lparr>sim_msgs = twelve, sim_labels = [], sim_estimate = 12, sim_batch_error = None,
           sim_item_errors = [], sim_bad_queries = [], sim_gone = []\<rparr>"

definition start :: "sim \<Rightarrow> sim session" where
  "start m = \<lparr>mailbox = m, trace = []\<rparr>"

definition undercount :: sim where
  "undercount = sim0\<lparr>sim_estimate := 1\<rparr>"


definition small :: sim where
  "small =
     \<lparr>sim_msgs = [(''m1'', [''INBOX'', ''UNREAD'', ''Project-X'']),
                  (''m2'', [''INBOX'']),
                  (''m3'', [''SENT'', ''Project-X'', ''Project-Z''])],
      sim_labels = [\<lparr>lbl_id = ''Project-X'', lbl_name = ''Project X''\<rparr>],
      sim_estimate = 3, sim_batch_error = None, sim_item_errors = [], sim_bad_queries = [], sim_gone = []\<rparr>"

definition project_x_mail :: sim where
  "project_x_mail =
     \<lparr>sim_msgs = [(''m1'', [''INBOX'', ''UNREAD'', ''Project-X''])],
      sim_labels = [], sim_estimate = 1, sim_batch_error = None, sim_item_errors = [], sim_bad_queries = [], sim_gone = []\<rparr>"


section \<open>Rules and stores to run the tools on\<close>

definition blank_rule :: rule where
  "blank_rule =
     \<lparr>label_name = Val ''Work'', sender_pattern = Undefined, subject_pattern = Undefined,
      subject_contains = Undefined, query = Undefined, enabled = Undefined,
      created = Undefined, last_run = Undefined, updated = Undefined\<rparr>"

definition no_args :: rule_args where
  "no_args =
     \<lparr>a_label_name = Undefined, a_sender_pattern = Undefined, a_subject_pattern = Undefined,
      a_subject_contains = Undefined, a_query = Undefined, a_enabled = Undefined\<rparr>"

definition empty_store :: store where
  "empty_store = \<lparr>rules_file = None, fs_write_error = None, now = ''2024-05-01T10:00:00.000Z''\<rparr>"

definition store_of :: "rule list \<Rightarrow> store" where
  "store_of rs =
     \<lparr>rules_file = Some \<lparr>version = ''1.0.0'', lastUpdated = ''2024-04-01T09:00:00.000Z'', rules = Val rs\<rparr>,
      fs_write_error = None, now = ''2024-05-01T10:00:00.000Z''\<rparr>"

definition three_rules :: "rule list" where
  "three_rules =
     [blank_rule\<lparr>label_name := Val ''A'', query := Val ''from:a@x.org''\<rparr>,
      blank_rule\<lparr>label_name := Val ''B'', query := Val ''from:b@x.org''\<rparr>,
      blank_rule\<lparr>label_name := Val ''C'', query := Val ''from:c@x.org'', enabled := Val False\<rparr>]"

definition clear_patterns :: rule_args where
  "clear_patterns = no_args\<lparr>a_sender_pattern := Null, a_subject_pattern := Null, a_subject_contains := Null\<rparr>"

definition sender_args :: rule_args where
  "sender_args = no_args\<lparr>a_label_name := Val ''Work'', a_sender_pattern := Val ''boss@corp.example''\<rparr>"

definition project_rule :: rule where
  "project_rule = blank_rule\<lparr>label_name := Val ''Project X'', query := Val ''from:pm@corp.example''\<rparr>"

definition work_rule :: rule where
  "work_rule = blank_rule\<lparr>label_name := Val ''Work'', query := Val ''from:boss@corp.example''\<rparr>"

definition bare_args :: rule_args where
  "bare_args = no_args\<lparr>a_label_name := Val ''Work''\<rparr>"

definition two_rules :: "rule list" where
  "two_rules = [blank_rule, project_rule]"

definition mixed_rules :: "rule list" where
  "mixed_rules =
     [blank_rule\<lparr>label_name := Val ''A'', query := Val ''bad(''\<rparr>,
      blank_rule\<lparr>label_name := Val ''B'', query := Val ''from:b@x.org'', enabled := Val False\<rparr>,
      project_rule\<lparr>enabled := Val True\<rparr>]"

definition small_bad :: sim where
  "small_bad = small\<lparr>sim_bad_queries := [''bad('']\<rparr>"

section \<open>Properties of the rule store\<close>

lemma load_after_save:
  "saveAutoLabelingRules rs st = (None, st') \<Longrightarrow> loadAutoLabelingRules st' = rs"
  by (auto simp: saveAutoLabelingRules_def loadAutoLabelingRules_def split: option.splits)

lemma save_succeeds:
  "fs_write_error st = None \<Longrightarrow> \<exists>st'. saveAutoLabelingRules rs st = (None, st')"
  by (simp add: saveAutoLabelingRules_def)

lemma nth_remove: "j < length rs - 1 \<Longrightarrow> i < length rs \<Longrightarrow>
  (take i rs @ drop (Suc i) rs) ! j = rs ! (if j < i then j else Suc j)"
  by (auto simp: nth_append min_def)

lemma list_rules_nth:
  "j < length (loadAutoLabelingRules st) \<Longrightarrow>
   toolListAutoLabelingRules st ! j = format_rule j (loadAutoLabelingRules st ! j)"
  by (simp add: toolListAutoLabelingRules_def Let_def nth_enumerate_eq)

lemma list_rules_length:
  "length (toolListAutoLabelingRules st) = length (loadAutoLabelingRules st)"
  by (simp add: toolListAutoLabelingRules_def Let_def)

lemma add_rejects_no_criteria:
  assumes "\<not> truthy_str (a_query args)" "\<not> truthy_str (a_sender_pattern args)"
    "\<not> truthy_str (a_subject_pattern args)" "\<not> nonempty_array (a_subject_contains args)"
  shows "\<exists>msg. toolAddAutoLabelingRule args st = (Inl (McpError InvalidParams msg), st)"
  using assms
  by (simp add: toolAddAutoLabelingRule_def Let_def add_searchQuery_def conditions3_def)

section \<open>Properties of the pagination loop\<close>

lemma listed_append: "listed (xs @ ys) = listed xs @ listed ys"
  by (induction xs rule: listed.induct) auto

lemma loop_body_cases:
  assumes "loop_body g act q bs ls s = (st, s')" and "quiet act"
  shows "(\<exists>e. st = Raise e) \<or>
         (\<exists>p r ls'. (st = Break ls' \<or> st = Next ls') \<and>
            listed (trace s') = listed (trace s) @ [p] \<and>
            counts ls' = tally bs (counts ls) [(page_size p, r)] \<and>
            (st = Next ls' \<longleftrightarrow> page_size p \<noteq> 0 \<and> has_next p))"
proof (cases "messages_list g (mailbox s) \<lparr>lp_q = q, lp_maxResults = int bs,
                lp_pageToken = (if truthy_str (nextPageToken ls) then nextPageToken ls else Undefined)\<rparr>")
  case (Inl e)
  with assms(1) show ?thesis
    by (auto simp: loop_body_def call_list_def Let_def)
next
  case (Inr p)
  let ?s1 = "s\<lparr>trace := trace s @ [MessagesList \<lparr>lp_q = q, lp_maxResults = int bs,
                lp_pageToken = (if truthy_str (nextPageToken ls) then nextPageToken ls else Undefined)\<rparr> (Inr p)]\<rparr>"
  show ?thesis
  proof (cases "page_size p = 0")
    case True
    with Inr assms(1) have "st = Break (ls\<lparr>nextPageToken := lr_nextPageToken p\<rparr>)" "s' = ?s1"
      by (auto simp: loop_body_def call_list_def Let_def page_size_def)
    then show ?thesis using True
      by (auto simp: listed_append counts_def intro!: exI[of _ p] exI[of _ None])
  next
    case False
    obtain thrown s2 where act: "act (or_empty (lr_messages p)) ?s1 = (thrown, s2)"
      by (cases "act (or_empty (lr_messages p)) ?s1") auto
    from assms(2) have q: "listed (trace s2) = listed (trace ?s1)"
      using act unfolding quiet_def by (metis snd_conv)
    from Inr assms(1) False act have s': "s' = s2"
      by (auto simp: loop_body_def call_list_def Let_def page_size_def split: if_splits)
    show ?thesis
    proof (cases thrown)
      case None
      with Inr assms(1) False act show ?thesis
        using q s'
        by (auto simp: loop_body_def call_list_def Let_def page_size_def has_next_def
              listed_append counts_def split: if_splits intro!: exI[of _ p] exI[of _ None])
    next
      case (Some e)
      with Inr assms(1) False act show ?thesis
        using q s'
        by (auto simp: loop_body_def call_list_def Let_def page_size_def has_next_def
              listed_append counts_def split: if_splits intro!: exI[of _ p] exI[of _ "Some e"])
    qed
  qed
qed


lemma tally_append: "tally bs c (xs @ ys) = tally bs (tally bs c xs) ys"
  by (induction bs c xs rule: tally.induct) auto

lemma tally_Cons: "tally bs c (x # xs) = tally bs (tally bs c [x]) xs"
proof -
  obtain a b d es where c: "c = (a, b, d, es)" by (cases c) auto
  obtain n r where x: "x = (n, r)" by (cases x) auto
  show ?thesis unfolding c x by (cases r) simp_all
qed

lemma tally_processed: "fst (tally bs c xs) = fst c + sum_list (map fst xs)"
  by (induction bs c xs rule: tally.induct) auto

lemma page_loop_run:
  assumes "page_loop g act q E bs ls s = (Inr ls', s')" and "quiet act"
  shows "\<exists>outs. listed (trace s') = listed (trace s) @ map fst outs \<and>
           loop_pages E (processedCount ls) (map fst outs) \<and>
           counts ls' = tally bs (counts ls) (map (\<lambda>(p, r). (page_size p, r)) outs)"
  using assms
proof (induction g act q E bs ls s rule: page_loop.induct)
  case (1 g act q E bs ls s)
  show ?case
  proof (cases "processedCount ls < E")
    case False
    with "1.prems" have "ls' = ls" "s' = s"
      by (auto simp: page_loop.simps[of g act q E bs ls s])
    with False show ?thesis by (auto intro!: exI[of _ "[]"])
  next
    case True
    obtain st s1 where body: "loop_body g act q bs ls s = (st, s1)"
      by (cases "loop_body g act q bs ls s") auto
    from loop_body_cases[OF body "1.prems"(2)] "1.prems"(1) True body
    obtain p r l1 where st: "st = Break l1 \<or> st = Next l1"
      and tr: "listed (trace s1) = listed (trace s) @ [p]"
      and cn: "counts l1 = tally bs (counts ls) [(page_size p, r)]"
      and nx: "st = Next l1 \<longleftrightarrow> page_size p \<noteq> 0 \<and> has_next p"
      by (auto simp: page_loop.simps[of g act q E bs ls s])
    have pc: "processedCount l1 = processedCount ls + page_size p"
      using cn by (cases r) (auto simp: counts_def)
    from st show ?thesis
    proof
      assume b: "st = Break l1"
      with "1.prems"(1) True body have "ls' = l1" "s' = s1"
        by (auto simp: page_loop.simps[of g act q E bs ls s])
      with tr cn nx b True show ?thesis
        by (auto intro!: exI[of _ "[(p, r)]"])
    next
      assume n: "st = Next l1"
      with "1.prems"(1) True body have run: "page_loop g act q E bs l1 s1 = (Inr ls', s')"
        by (auto simp: page_loop.simps[of g act q E bs ls s])
      from "1.IH"[OF True body[symmetric] n run "1.prems"(2)]
      obtain outs where o: "listed (trace s') = listed (trace s1) @ map fst outs"
        "loop_pages E (processedCount l1) (map fst outs)"
        "counts ls' = tally bs (counts l1) (map (\<lambda>(p, r). (page_size p, r)) outs)"
        by blast
      have a: "listed (trace s') = listed (trace s) @ map fst ((p, r) # outs)"
        using o(1) tr by simp
      have b: "loop_pages E (processedCount ls) (map fst ((p, r) # outs))"
        using o(2) nx n True pc by simp
      have "tally bs (counts ls) ((page_size p, r) # map (\<lambda>(p, r). (page_size p, r)) outs)
            = tally bs (tally bs (counts ls) [(page_size p, r)]) (map (\<lambda>(p, r). (page_size p, r)) outs)"
        by (rule tally_Cons)
      then have c: "counts ls' = tally bs (counts ls) (map (\<lambda>(p, r). (page_size p, r)) ((p, r) # outs))"
        using o(3) cn by simp
      from a b c show ?thesis by blast
    qed
  qed
qed

lemma quiet_delete_action: "quiet (delete_action g permanent)"
  by (auto simp: quiet_def delete_action_def call_batchDelete_def call_batchModify_def
        listed_append split: prod.splits)

lemma listed_get_all: "listed (trace (snd (call_get_all g ids s))) = listed (trace s)"
proof (induction ids arbitrary: s)
  case Nil
  show ?case by simp
next
  case (Cons a ids)
  obtain r s1 where c: "call_get g a s = (r, s1)"
    by (cases "call_get g a s") auto
  then have "listed (trace s1) = listed (trace s)"
    by (auto simp: call_get_def Let_def listed_append)
  moreover have "snd (call_get_all g (a # ids) s) = snd (call_get_all g ids s1)"
    using c by (simp split: prod.splits)
  ultimately show ?case using Cons.IH[of s1] by simp
qed

lemma quiet_label_action: "quiet (label_action g operation label_ids)"
  unfolding quiet_def
proof (intro allI)
  fix ids and s :: "'a session"
  have m: "\<And>b t. listed (trace (snd (call_batchModify g b t))) = listed (trace t)"
    by (auto simp: call_batchModify_def listed_append split: prod.splits)
  show "listed (trace (snd (label_action g operation label_ids ids s))) = listed (trace s)"
    using listed_get_all[of g ids s]
    by (auto simp: label_action_def m split: prod.splits sum.splits)
qed


lemma sum_sizes: "sum_list (map fst (map (\<lambda>(p, r). (page_size p, r)) outs)) = sum_list (map page_size (map fst outs))"
  by (induction outs) auto

lemma probe_then_loop:
  assumes pr: "call_list g (probe_params q) s = (Inr probe, s1)"
    and lp: "page_loop g act q E bs init_loop_state s1 = (Inr ls, s')"
    and qu: "quiet act"
  shows "\<exists>outs. listed (trace s') = listed (trace s) @ probe # map fst outs \<and>
           loop_pages E 0 (map fst outs) \<and>
           counts ls = tally bs (0, 0, 0, []) (map (\<lambda>(p, r). (page_size p, r)) outs)"
proof -
  from pr have t1: "listed (trace s1) = listed (trace s) @ [probe]"
    by (auto simp: call_list_def Let_def listed_append)
  from page_loop_run[OF lp qu] obtain outs where
    o: "listed (trace s') = listed (trace s1) @ map fst outs"
       "loop_pages E (processedCount init_loop_state) (map fst outs)"
       "counts ls = tally bs (counts init_loop_state) (map (\<lambda>(p, r). (page_size p, r)) outs)"
    by blast
  with t1 show ?thesis
    by (auto simp: init_loop_state_def counts_def)
qed

lemma bulk_delete_Completed:
  assumes "toolBulkDeleteEmails g qa b p d s = (Inr (Completed r), s')"
  shows "\<exists>probe s1 ls.
           call_list g (probe_params (str_of qa)) s = (Inr probe, s1) \<and>
           page_loop g (delete_action g (truthy_bool p)) (str_of qa)
             (nat_or_zero (lr_resultSizeEstimate probe))
             (clamp 10 500 (delete_batch_size b)) init_loop_state s1 = (Inr ls, s') \<and>
           r = make_result (str_of qa) (clamp 10 500 (delete_batch_size b)) ls"
  using assms
  by (auto simp: toolBulkDeleteEmails_def Let_def split: if_splits prod.splits sum.splits)

lemma bulk_label_Completed:
  assumes "toolBulkLabelEmails g qa lids op b d s = (Inr (LabelCompleted r op' lids'), s')"
  shows "\<exists>probe s1 ls.
           call_list g (probe_params (str_of qa)) s = (Inr probe, s1) \<and>
           page_loop g (label_action g op' lids') (str_of qa)
             (nat_or_zero (lr_resultSizeEstimate probe))
             (clamp 10 500 (label_batch_size b)) init_loop_state s1 = (Inr ls, s') \<and>
           r = make_result (str_of qa) (clamp 10 500 (label_batch_size b)) ls"
  using assms
  by (auto simp: toolBulkLabelEmails_def Let_def split: if_splits prod.splits sum.splits)

lemma counts_processed:
  assumes "counts ls = tally bs (0, 0, 0, []) (map (\<lambda>(p, r). (page_size p, r)) outs)"
  shows "processedCount ls = sum_list (map page_size (map fst outs))"
proof -
  have "fst (counts ls) = fst (0::nat, 0::nat, 0::nat, []::batch_error list) + sum_list (map page_size (map fst outs))"
    unfolding assms tally_processed sum_sizes ..
  then show ?thesis by (simp add: counts_def)
qed



section \<open>Properties of the label operations\<close>

lemma modify_calls_append: "modify_calls (xs @ ys) = modify_calls xs @ modify_calls ys"
  by (induction xs rule: modify_calls.induct) auto

lemma set_fold_set_insert: "set (fold set_insert xs acc) = set xs \<union> set acc"
  by (induction xs arbitrary: acc) (auto simp: set_insert_def)

lemma distinct_fold_set_insert: "distinct acc \<Longrightarrow> distinct (fold set_insert xs acc)"
  by (induction xs arbitrary: acc) (auto simp: set_insert_def)

lemma set_new_Set: "set (new_Set xs) = set xs"
  by (simp add: new_Set_def set_fold_set_insert)

lemma distinct_new_Set: "distinct (new_Set xs)"
  by (simp add: new_Set_def distinct_fold_set_insert)

lemma replace_body_spares: "spares_system_labels label_ids (replace_body label_ids ids msgs)"
  by (auto simp: spares_system_labels_def replace_body_def Let_def set_new_Set)

lemma modify_calls_get_all:
  "modify_calls (trace (snd (call_get_all g ids s))) = modify_calls (trace s)"
proof (induction ids arbitrary: s)
  case Nil
  show ?case by simp
next
  case (Cons a ids)
  obtain r s1 where c: "call_get g a s = (r, s1)"
    by (cases "call_get g a s") auto
  then have "modify_calls (trace s1) = modify_calls (trace s)"
    by (auto simp: call_get_def Let_def modify_calls_append)
  moreover have "snd (call_get_all g (a # ids) s) = snd (call_get_all g ids s1)"
    using c by (simp split: prod.splits)
  ultimately show ?case using Cons.IH[of s1] by simp
qed

lemma modify_calls_batchModify:
  "modify_calls (trace (snd (call_batchModify g b s))) = modify_calls (trace s) @ [b]"
  by (auto simp: call_batchModify_def modify_calls_append split: prod.splits)

lemma replace_action_adds_only:
  "adds_only (spares_system_labels label_ids) (label_action g (Val ''replace'') label_ids)"
  unfolding adds_only_def
proof (intro allI)
  fix ids and s :: "'a session"
  obtain rs s1 where ga: "call_get_all g ids s = (rs, s1)"
    by (cases "call_get_all g ids s") auto
  then have m1: "modify_calls (trace s1) = modify_calls (trace s)"
    using modify_calls_get_all[of g ids s] by simp
  show "\<exists>new. modify_calls (trace (snd (label_action g (Val ''replace'') label_ids ids s))) =
           modify_calls (trace s) @ new \<and> (\<forall>b\<in>set new. spares_system_labels label_ids b)"
  proof (cases "all_settled rs")
    case (Inl e)
    with ga m1 show ?thesis
      by (auto simp: label_action_def intro!: exI[of _ "[]"])
  next
    case (Inr msgs)
    with ga m1 show ?thesis
      by (auto simp: label_action_def modify_calls_batchModify replace_body_spares
            intro!: exI[of _ "[replace_body label_ids ids msgs]"])
  qed
qed

lemma loop_body_adds_only:
  assumes "adds_only P act"
  shows "\<exists>new. modify_calls (trace (snd (loop_body g act q bs ls s))) = modify_calls (trace s) @ new \<and>
               (\<forall>b \<in> set new. P b)"
proof -
  let ?p = "\<lparr>lp_q = q, lp_maxResults = int bs,
             lp_pageToken = (if truthy_str (nextPageToken ls) then nextPageToken ls else Undefined)\<rparr>"
  let ?r = "messages_list g (mailbox s) ?p"
  let ?s1 = "s\<lparr>trace := trace s @ [MessagesList ?p ?r]\<rparr>"
  have m1: "modify_calls (trace ?s1) = modify_calls (trace s)"
    by (simp add: modify_calls_append)
  show ?thesis
  proof (cases ?r)
    case (Inl e)
    then show ?thesis using m1
      by (auto simp: loop_body_def call_list_def Let_def intro!: exI[of _ "[]"])
  next
    case (Inr p)
    show ?thesis
    proof (cases "length (or_empty (lr_messages p)) = 0")
      case True
      with Inr show ?thesis using m1
        by (auto simp: loop_body_def call_list_def Let_def intro!: exI[of _ "[]"])
    next
      case False
      from assms obtain new where
        n: "modify_calls (trace (snd (act (or_empty (lr_messages p)) ?s1))) = modify_calls (trace ?s1) @ new"
           "\<forall>b \<in> set new. P b"
        unfolding adds_only_def by blast
      have "snd (loop_body g act q bs ls s) = snd (act (or_empty (lr_messages p)) ?s1)"
        using Inr False
        by (auto simp: loop_body_def call_list_def Let_def split: prod.splits)
      with n m1 show ?thesis by auto
    qed
  qed
qed

lemma page_loop_adds_only:
  assumes "adds_only P act"
  shows "\<exists>new. modify_calls (trace (snd (page_loop g act q E bs ls s))) = modify_calls (trace s) @ new \<and>
               (\<forall>b \<in> set new. P b)"
  using assms
proof (induction g act q E bs ls s rule: page_loop.induct)
  case (1 g act q E bs ls s)
  show ?case
  proof (cases "processedCount ls < E")
    case False
    then show ?thesis
      by (auto simp: page_loop.simps[of g act q E bs ls s] intro!: exI[of _ "[]"])
  next
    case True
    obtain st s1 where body: "loop_body g act q bs ls s = (st, s1)"
      by (cases "loop_body g act q bs ls s") auto
    from loop_body_adds_only[OF "1.prems", of g q bs ls s] body obtain new1 where
      n1: "modify_calls (trace s1) = modify_calls (trace s) @ new1" "\<forall>b \<in> set new1. P b"
      by auto
    show ?thesis
    proof (cases st)
      case (Next l1)
      from "1.IH"[OF True body[symmetric] Next "1.prems"] obtain new2 where
        n2: "modify_calls (trace (snd (page_loop g act q E bs l1 s1))) = modify_calls (trace s1) @ new2"
            "\<forall>b \<in> set new2. P b"
        by blast
      have "snd (page_loop g act q E bs ls s) = snd (page_loop g act q E bs l1 s1)"
        using True body Next by (simp add: page_loop.simps[of g act q E bs ls s])
      with n1 n2 show ?thesis
        by (auto intro!: exI[of _ "new1 @ new2"])
    next
      case (Break l1)
      then have "snd (page_loop g act q E bs ls s) = s1"
        using True body by (simp add: page_loop.simps[of g act q E bs ls s])
      with n1 show ?thesis by auto
    next
      case (Raise e)
      then have "snd (page_loop g act q E bs ls s) = s1"
        using True body by (simp add: page_loop.simps[of g act q E bs ls s])
      with n1 show ?thesis by auto
    qed
  qed
qed

lemma bulk_label_replace_calls:
  "\<exists>new. modify_calls (trace (snd (toolBulkLabelEmails g qa lids (Val ''replace'') b d s))) =
            modify_calls (trace s) @ new \<and>
          (\<forall>body \<in> set new. spares_system_labels (or_empty lids) body)"
proof -
  let ?tool = "toolBulkLabelEmails g qa lids (Val ''replace'') b d s"
  let ?r = "messages_list g (mailbox s) (probe_params (str_of qa))"
  let ?s1 = "s\<lparr>trace := trace s @ [MessagesList (probe_params (str_of qa)) ?r]\<rparr>"
  have m1: "modify_calls (trace ?s1) = modify_calls (trace s)"
    by (simp add: modify_calls_append)
  have pr: "call_list g (probe_params (str_of qa)) s = (?r, ?s1)"
    by (simp add: call_list_def Let_def)
  have "snd ?tool = s \<or> snd ?tool = ?s1 \<or>
        (\<exists>E. snd ?tool = snd (page_loop g (label_action g (Val ''replace'') (or_empty lids))
                          (str_of qa) E (clamp 10 500 (label_batch_size b)) init_loop_state ?s1))"
  proof (cases "truthy_str qa \<and> nonempty_array lids")
    case False
    then have "snd ?tool = s" by (auto simp: toolBulkLabelEmails_def)
    then show ?thesis by simp
  next
    case ok: True
    show ?thesis
    proof (cases ?r)
      case (Inl e)
      with ok have "snd ?tool = ?s1" by (simp add: toolBulkLabelEmails_def Let_def pr)
      then show ?thesis by simp
    next
      case (Inr list)
      show ?thesis
      proof (cases "nat_or_zero (lr_resultSizeEstimate list) = 0 \<or> truthy_bool d")
        case True
        with ok Inr have "snd ?tool = ?s1"
          by (auto simp: toolBulkLabelEmails_def Let_def pr)
        then show ?thesis by simp
      next
        case False
        with ok Inr have "snd ?tool = snd (page_loop g (label_action g (Val ''replace'') (or_empty lids))
                          (str_of qa) (nat_or_zero (lr_resultSizeEstimate list))
                          (clamp 10 500 (label_batch_size b)) init_loop_state ?s1)"
          by (auto simp: toolBulkLabelEmails_def Let_def pr split: prod.splits sum.splits)
        then show ?thesis by blast
      qed
    qed
  qed
  then consider (same) "snd ?tool = s" | (probed) "snd ?tool = ?s1"
    | (looped) E where "snd ?tool = snd (page_loop g (label_action g (Val ''replace'') (or_empty lids))
                          (str_of qa) E (clamp 10 500 (label_batch_size b)) init_loop_state ?s1)"
    by blast
  then show ?thesis
  proof cases
    case same
    then show ?thesis by (auto intro!: exI[of _ "[]"])
  next
    case probed
    then show ?thesis using m1 by (auto intro!: exI[of _ "[]"])
  next
    case (looped E)
    from page_loop_adds_only[OF replace_action_adds_only[of "or_empty lids" g],
           of g "str_of qa" E "clamp 10 500 (label_batch_size b)" init_loop_state ?s1]
    obtain new where
      "modify_calls (trace (snd (page_loop g (label_action g (Val ''replace'') (or_empty lids))
                          (str_of qa) E (clamp 10 500 (label_batch_size b)) init_loop_state ?s1)))
         = modify_calls (trace ?s1) @ new"
      "\<forall>body \<in> set new. spares_system_labels (or_empty lids) body"
      by blast
    with looped m1 show ?thesis by auto
  qed
qed

section \<open>Properties of the fallback\<close>


















section \<open>Properties of the rule runner\<close>

lemma reads_or_creates_refl: "reads_or_creates s s"
  by (auto simp: reads_or_creates_def)

lemma reads_or_creates_trans:
  assumes "reads_or_creates s s1" and "reads_or_creates s1 s2"
  shows "reads_or_creates s s2"
proof -
  from assms(1) obtain cs where a: "trace s1 = trace s @ cs" "\<forall>c \<in> set cs. is_read c \<or> is_create c"
    "(\<forall>c \<in> set cs. is_read c) \<longrightarrow> mailbox s1 = mailbox s"
    unfolding reads_or_creates_def by blast
  from assms(2) obtain ds where b: "trace s2 = trace s1 @ ds" "\<forall>c \<in> set ds. is_read c \<or> is_create c"
    "(\<forall>c \<in> set ds. is_read c) \<longrightarrow> mailbox s2 = mailbox s1"
    unfolding reads_or_creates_def by blast
  from a b have "trace s2 = trace s @ (cs @ ds)" "\<forall>c \<in> set (cs @ ds). is_read c \<or> is_create c"
    "(\<forall>c \<in> set (cs @ ds). is_read c) \<longrightarrow> mailbox s2 = mailbox s"
    by auto
  then show ?thesis unfolding reads_or_creates_def by blast
qed

lemma reads_call_list: "call_list g p s = (r, s1) \<Longrightarrow> reads_or_creates s s1 \<and> mailbox s1 = mailbox s"
  by (auto simp: call_list_def Let_def reads_or_creates_def)

lemma reads_labels_list: "call_labels_list g s = (r, s1) \<Longrightarrow> reads_or_creates s s1"
  by (auto simp: call_labels_list_def Let_def reads_or_creates_def)

lemma creates_labels_create: "call_labels_create g n s = (r, s1) \<Longrightarrow> reads_or_creates s s1"
  by (auto simp: call_labels_create_def Let_def reads_or_creates_def split: prod.splits)

lemma resolve_label_reads_or_creates:
  assumes "resolve_label g n s = (r, s1)"
  shows "reads_or_creates s s1"
proof -
  obtain r0 s0 where l: "call_labels_list g s = (r0, s0)" by (cases "call_labels_list g s") auto
  note a = reads_labels_list[OF l]
  show ?thesis
  proof (cases "s1 = s0")
    case True
    with a show ?thesis by simp
  next
    case False
    with assms l obtain r2 where "call_labels_create g n s0 = (r2, s1)"
      by (auto simp: resolve_label_def split: sum.splits option.splits prod.splits)
    from a creates_labels_create[OF this] show ?thesis by (rule reads_or_creates_trans)
  qed
qed

lemma fetch_body_reads:
  "fetch_body g q b fs s = (st, s1) \<Longrightarrow> reads_or_creates s s1"
  by (auto simp: fetch_body_def Let_def split: prod.splits sum.splits if_splits dest: reads_call_list)

lemma fetch_loop_reads:
  "fetch_loop g q b m fs s = (r, s') \<Longrightarrow> reads_or_creates s s'"
proof (induction g q b m fs s rule: fetch_loop.induct)
  case (1 g q b m fs s)
  show ?case
  proof (cases "int (batchCount fs) < m")
    case False
    with "1.prems" show ?thesis
      by (auto simp: fetch_loop.simps[of g q b m fs s] reads_or_creates_refl)
  next
    case True
    obtain st s1 where body: "fetch_body g q b fs s = (st, s1)"
      by (cases "fetch_body g q b fs s") auto
    note b = fetch_body_reads[OF body]
    show ?thesis
    proof (cases st)
      case (FNext f1)
      with True body "1.prems" have "fetch_loop g q b m f1 s1 = (r, s')"
        by (simp add: fetch_loop.simps[of g q b m fs s])
      from b "1.IH"[OF True body[symmetric] FNext this] show ?thesis
        by (rule reads_or_creates_trans)
    next
      case (FBreak f1)
      with True body "1.prems" have "s' = s1"
        by (simp add: fetch_loop.simps[of g q b m fs s])
      with b show ?thesis by simp
    next
      case (FRaise e)
      with True body "1.prems" have "s' = s1"
        by (simp add: fetch_loop.simps[of g q b m fs s])
      with b show ?thesis by simp
    qed
  qed
qed

text \<open>What one rule does in a dry run.\<close>

lemma run_rule_dry:
  assumes "run_rule g True b m i (mem, st, s) = (oc, mem', st', s')"
  shows "mem' = mem \<and> st' = st \<and> reads_or_creates s s'"
proof -
  obtain x s1 where rl: "resolve_label g (label_name (mem ! i)) s = (x, s1)"
    by (cases "resolve_label g (label_name (mem ! i)) s") auto
  note a = resolve_label_reads_or_creates[OF rl]
  show ?thesis
  proof (cases "s' = s1")
    case True
    with assms rl a show ?thesis
      by (auto simp: run_rule_def Let_def split: sum.splits prod.splits if_splits)
  next
    case False
    with assms rl obtain r2 where
      f: "fetch_loop g (str_of (run_searchQuery (mem ! i))) b m
            \<lparr>totalEmailsFound = 0, allMessageIds = [], f_nextPageToken = Null, batchCount = 0\<rparr> s1 = (r2, s')"
      and e: "mem' = mem" "st' = st"
      by (auto simp: run_rule_def Let_def split: sum.splits prod.splits if_splits)
    from a fetch_loop_reads[OF f] have "reads_or_creates s s'" by (rule reads_or_creates_trans)
    with e show ?thesis by simp
  qed
qed

lemma run_loop_dry:
  assumes "run_loop g True b m is acc (mem, st, s) = (acc', mem', st', s')"
  shows "mem' = mem \<and> st' = st \<and> reads_or_creates s s'"
  using assms
proof (induction "is" arbitrary: acc s)
  case Nil
  then show ?case by (simp add: reads_or_creates_refl)
next
  case (Cons i "is")
  obtain oc m1 st1 s1 where r: "run_rule g True b m i (mem, st, s) = (oc, m1, st1, s1)"
    by (cases "run_rule g True b m i (mem, st, s)") auto
  from run_rule_dry[OF r] have a: "m1 = mem" "st1 = st" "reads_or_creates s s1"
    by simp_all
  from Cons.prems r a have "run_loop g True b m is (record_outcome oc acc) (mem, st, s1) = (acc', mem', st', s')"
    by simp
  from Cons.IH[OF this] a show ?case by (auto intro: reads_or_creates_trans)
qed

text \<open>The trace is a record only: what a tool returns and does depends on the mailbox.\<close>

lemma call_list_mailbox:
  "mailbox s = mailbox t \<Longrightarrow>
   fst (call_list g p s) = fst (call_list g p t) \<and>
   mailbox (snd (call_list g p s)) = mailbox (snd (call_list g p t))"
  by (simp add: call_list_def Let_def)

lemma call_batchModify_mailbox:
  "mailbox s = mailbox t \<Longrightarrow>
   fst (call_batchModify g b s) = fst (call_batchModify g b t) \<and>
   mailbox (snd (call_batchModify g b s)) = mailbox (snd (call_batchModify g b t))"
  by (simp add: call_batchModify_def Let_def split: prod.splits)

lemma resolve_label_mailbox:
  "mailbox s = mailbox t \<Longrightarrow>
   fst (resolve_label g n s) = fst (resolve_label g n t) \<and>
   mailbox (snd (resolve_label g n s)) = mailbox (snd (resolve_label g n t))"
  by (auto simp: resolve_label_def call_labels_list_def call_labels_create_def Let_def
        split: sum.splits option.splits prod.splits)

lemma fetch_body_mailbox:
  "mailbox s = mailbox t \<Longrightarrow>
   fst (fetch_body g q b fs s) = fst (fetch_body g q b fs t) \<and>
   mailbox (snd (fetch_body g q b fs s)) = mailbox (snd (fetch_body g q b fs t))"
  by (auto simp: fetch_body_def call_list_def Let_def split: sum.splits)

lemma fetch_loop_mailbox:
  "mailbox s = mailbox t \<Longrightarrow>
   fst (fetch_loop g q b m fs s) = fst (fetch_loop g q b m fs t) \<and>
   mailbox (snd (fetch_loop g q b m fs s)) = mailbox (snd (fetch_loop g q b m fs t))"
proof (induction g q b m fs s arbitrary: t rule: fetch_loop.induct)
  case (1 g q b m fs s)
  show ?case
  proof (cases "int (batchCount fs) < m")
    case False
    with "1.prems" show ?thesis
      by (simp add: fetch_loop.simps[of g q b m fs])
  next
    case True
    obtain st s1 where bs: "fetch_body g q b fs s = (st, s1)"
      by (cases "fetch_body g q b fs s") auto
    obtain st' t1 where bt: "fetch_body g q b fs t = (st', t1)"
      by (cases "fetch_body g q b fs t") auto
    from fetch_body_mailbox[OF "1.prems", of g q b fs] bs bt
    have e: "st' = st" "mailbox s1 = mailbox t1" by simp_all
    show ?thesis
    proof (cases st)
      case (FNext f1)
      from "1.IH"[OF True bs[symmetric] FNext e(2)] True bs bt e FNext show ?thesis
        by (simp add: fetch_loop.simps[of g q b m fs])
    next
      case (FBreak f1)
      with True bs bt e show ?thesis
        by (simp add: fetch_loop.simps[of g q b m fs])
    next
      case (FRaise x)
      with True bs bt e show ?thesis
        by (simp add: fetch_loop.simps[of g q b m fs])
    qed
  qed
qed

lemma apply_chunks_mailbox:
  "mailbox s = mailbox t \<Longrightarrow>
   fst (apply_chunks g l ids n s) = fst (apply_chunks g l ids n t) \<and>
   mailbox (snd (apply_chunks g l ids n s)) = mailbox (snd (apply_chunks g l ids n t))"
proof (induction g l ids n s arbitrary: t rule: apply_chunks.induct)
  case (1 g l ids n s)
  show ?case
  proof (cases "ids = []")
    case True
    with "1.prems" show ?thesis by (simp add: apply_chunks.simps[of g l "[]" n])
  next
    case False
    let ?b = "add_label_body (take 1000 ids) l"
    obtain r s1 where cs: "call_batchModify g ?b s = (r, s1)"
      by (cases "call_batchModify g ?b s") auto
    obtain r' t1 where ct: "call_batchModify g ?b t = (r', t1)"
      by (cases "call_batchModify g ?b t") auto
    from call_batchModify_mailbox[OF "1.prems", of g ?b] cs ct
    have e: "r' = r" "mailbox s1 = mailbox t1" by simp_all
    show ?thesis
    proof (cases r)
      case None
      from "1.IH"[OF False refl cs[symmetric] None e(2)] False cs ct e None show ?thesis
        by (simp add: apply_chunks.simps[of g l ids n] Let_def)
    next
      case (Some x)
      with False cs ct e show ?thesis
        by (simp add: apply_chunks.simps[of g l ids n] Let_def)
    qed
  qed
qed

lemma run_rule_mailbox:
  assumes "mailbox s = mailbox t"
  shows "\<exists>oc mem' st' s' t'.
           run_rule g d b m i (mem, st, s) = (oc, mem', st', s') \<and>
           run_rule g d b m i (mem, st, t) = (oc, mem', st', t') \<and>
           mailbox s' = mailbox t'"
proof -
  let ?r = "mem ! i"
  let ?f0 = "\<lparr>totalEmailsFound = 0, allMessageIds = [], f_nextPageToken = Null, batchCount = 0\<rparr>"
  obtain x s1 where rs: "resolve_label g (label_name ?r) s = (x, s1)"
    by (cases "resolve_label g (label_name ?r) s") auto
  obtain x' t1 where rt: "resolve_label g (label_name ?r) t = (x', t1)"
    by (cases "resolve_label g (label_name ?r) t") auto
  from resolve_label_mailbox[OF assms, of g "label_name ?r"] rs rt
  have e1: "x' = x" "mailbox s1 = mailbox t1" by simp_all
  show ?thesis
  proof (cases x)
    case (Inl e)
    with rs rt e1 show ?thesis by (simp add: run_rule_def)
  next
    case (Inr lid)
    show ?thesis
    proof (cases "truthy_str (run_searchQuery ?r)")
      case False
      with Inr rs rt e1 show ?thesis by (simp add: run_rule_def)
    next
      case tq: True
      obtain y s2 where fs: "fetch_loop g (str_of (run_searchQuery ?r)) b m ?f0 s1 = (y, s2)"
        by (cases "fetch_loop g (str_of (run_searchQuery ?r)) b m ?f0 s1") auto
      obtain y' t2 where ft: "fetch_loop g (str_of (run_searchQuery ?r)) b m ?f0 t1 = (y', t2)"
        by (cases "fetch_loop g (str_of (run_searchQuery ?r)) b m ?f0 t1") auto
      from fetch_loop_mailbox[OF e1(2), of g "str_of (run_searchQuery ?r)" b m ?f0] fs ft
      have e2: "y' = y" "mailbox s2 = mailbox t2" by simp_all
      show ?thesis
      proof (cases y)
        case (Inl e)
        with Inr tq rs rt e1 fs ft e2 show ?thesis by (simp add: run_rule_def)
      next
        case found: (Inr fs0)
        show ?thesis
        proof (cases "totalEmailsFound fs0 = 0 \<or> d")
          case True
          with found Inr tq rs rt e1 fs ft e2 show ?thesis by (auto simp: run_rule_def Let_def)
        next
          case False
          obtain z s3 where as: "apply_chunks g lid (allMessageIds fs0) 0 s2 = (z, s3)"
            by (cases "apply_chunks g lid (allMessageIds fs0) 0 s2") auto
          obtain z' t3 where at: "apply_chunks g lid (allMessageIds fs0) 0 t2 = (z', t3)"
            by (cases "apply_chunks g lid (allMessageIds fs0) 0 t2") auto
          from apply_chunks_mailbox[OF e2(2), of g lid "allMessageIds fs0" 0] as at
          have e3: "z' = z" "mailbox s3 = mailbox t3" by simp_all
          from False found Inr tq rs rt e1 fs ft e2 as at e3 show ?thesis
            by (auto simp: run_rule_def Let_def split: sum.splits option.splits prod.splits)
        qed
      qed
    qed
  qed
qed

lemma run_loop_mailbox:
  assumes "mailbox s = mailbox t"
  shows "\<exists>acc' mem' st' s' t'.
           run_loop g d b m is acc (mem, st, s) = (acc', mem', st', s') \<and>
           run_loop g d b m is acc (mem, st, t) = (acc', mem', st', t') \<and>
           mailbox s' = mailbox t'"
  using assms
proof (induction "is" arbitrary: acc mem st s t)
  case Nil
  then show ?case by simp
next
  case (Cons i "is")
  from run_rule_mailbox[OF Cons.prems, of g d b m i mem st] obtain oc mem1 st1 s1 t1 where
    r: "run_rule g d b m i (mem, st, s) = (oc, mem1, st1, s1)"
       "run_rule g d b m i (mem, st, t) = (oc, mem1, st1, t1)"
       "mailbox s1 = mailbox t1"
    by blast
  from Cons.IH[OF r(3), of "record_outcome oc acc" mem1 st1] r(1,2) show ?case
    by simp
qed

lemma toolRun_mailbox:
  assumes "mailbox s = mailbox t"
  shows "fst (toolRunAutoLabelingRules g dry bs mb (st, s)) = fst (toolRunAutoLabelingRules g dry bs mb (st, t)) \<and>
         fst (snd (toolRunAutoLabelingRules g dry bs mb (st, s)))
           = fst (snd (toolRunAutoLabelingRules g dry bs mb (st, t)))"
proof -
  let ?d = "case dry of Undefined \<Rightarrow> False | x \<Rightarrow> truthy_bool x"
  let ?rs = "loadAutoLabelingRules st"
  from run_loop_mailbox[OF assms, of g ?d "num_default 100 bs" "num_default 10 mb" "enabledRules ?rs"
          "([], [])" ?rs st]
  obtain acc' mem' st' s' t' where
    "run_loop g ?d (num_default 100 bs) (num_default 10 mb) (enabledRules ?rs) ([], []) (?rs, st, s)
       = (acc', mem', st', s')"
    "run_loop g ?d (num_default 100 bs) (num_default 10 mb) (enabledRules ?rs) ([], []) (?rs, st, t)
       = (acc', mem', st', t')"
    by blast
  then show ?thesis
    by (simp add: toolRunAutoLabelingRules_def Let_def split: prod.splits)
qed

lemma toolRun_dry:
  assumes "truthy_bool dry" and "toolRunAutoLabelingRules g dry bs mb (st, s) = (out, st', s')"
  shows "st' = st \<and> reads_or_creates s s'"
proof -
  from assms(1) have d: "(case dry of Undefined \<Rightarrow> False | x \<Rightarrow> truthy_bool x) = True"
    by (cases dry) auto
  let ?rs = "loadAutoLabelingRules st"
  show ?thesis
  proof (cases "length (enabledRules ?rs) = 0")
    case True
    with assms(2) show ?thesis
      by (simp add: toolRunAutoLabelingRules_def Let_def reads_or_creates_refl)
  next
    case False
    obtain acc' mem1 st1 s1 where
      r: "run_loop g True (num_default 100 bs) (num_default 10 mb) (enabledRules ?rs) ([], []) (?rs, st, s)
            = (acc', mem1, st1, s1)"
      by (cases "run_loop g True (num_default 100 bs) (num_default 10 mb) (enabledRules ?rs) ([], []) (?rs, st, s)")
         auto
    with False assms(2) d have "st' = st1" "s' = s1"
      by (auto simp: toolRunAutoLabelingRules_def Let_def split: prod.splits)
    with run_loop_dry[OF r] show ?thesis by simp
  qed
qed

lemma attempt_Nil: "attempt [] None"
  by (simp add: attempt_def)

lemma attempt_single: "call_error c = r \<Longrightarrow> attempt [c] r"
  by (cases r) (auto simp: attempt_def)

lemma attempt_append: "attempt cs None \<Longrightarrow> attempt ds r \<Longrightarrow> attempt (cs @ ds) r"
  by (cases r) (auto simp: attempt_def butlast_append)

lemma resolve_label_attempt:
  assumes "resolve_label g n s = (r, s1)"
  shows "\<exists>cs. trace s1 = trace s @ cs \<and> attempt cs (thrown_of r)"
proof -
  let ?l = "labels_list g (mailbox s)"
  let ?s0 = "s\<lparr>trace := trace s @ [LabelsList ?l]\<rparr>"
  have l: "call_labels_list g s = (?l, ?s0)" by (simp add: call_labels_list_def Let_def)
  show ?thesis
  proof (cases ?l)
    case (Inl e)
    with assms l have "r = Inl e" "s1 = ?s0" by (auto simp: resolve_label_def)
    with Inl show ?thesis by (auto intro!: exI[of _ "[LabelsList ?l]"] attempt_single)
  next
    case (Inr labels)
    then have a: "attempt [LabelsList ?l] None" by (auto intro: attempt_single)
    show ?thesis
    proof (cases "find (\<lambda>l. Val (lbl_name l) = n) (or_empty labels)")
      case (Some existing)
      with Inr assms l have "r = Inr (lbl_id existing)" "s1 = ?s0" by (auto simp: resolve_label_def)
      with a show ?thesis by (auto intro!: exI[of _ "[LabelsList ?l]"])
    next
      case None
      obtain c m where cr: "labels_create g (mailbox ?s0) n = (c, m)"
        by (cases "labels_create g (mailbox ?s0) n") auto
      then have cc: "call_labels_create g n ?s0 = (c, \<lparr>mailbox = m, trace = trace ?s0 @ [LabelsCreate n c]\<rparr>)"
        by (simp add: call_labels_create_def)
      with None Inr assms l have "thrown_of r = call_error (LabelsCreate n c)"
        "s1 = \<lparr>mailbox = m, trace = trace ?s0 @ [LabelsCreate n c]\<rparr>"
        by (auto simp: resolve_label_def split: sum.splits)
      moreover have "attempt ([LabelsList ?l] @ [LabelsCreate n c]) (call_error (LabelsCreate n c))"
        by (rule attempt_append[OF a attempt_single]) simp
      ultimately show ?thesis
        by (auto intro!: exI[of _ "[LabelsList ?l, LabelsCreate n c]"])
    qed
  qed
qed

lemma fetch_body_attempt:
  assumes "fetch_body g q b fs s = (st, s1)"
  shows "\<exists>cs. trace s1 = trace s @ cs \<and> attempt cs (fetch_thrown st)"
proof -
  let ?p = "\<lparr>lp_q = q, lp_maxResults = min b 500,
             lp_pageToken = (if truthy_str (f_nextPageToken fs) then f_nextPageToken fs else Undefined)\<rparr>"
  let ?r = "messages_list g (mailbox s) ?p"
  from assms have "s1 = s\<lparr>trace := trace s @ [MessagesList ?p ?r]\<rparr>"
    "fetch_thrown st = call_error (MessagesList ?p ?r)"
    by (auto simp: fetch_body_def call_list_def Let_def split: sum.splits if_splits)
  then show ?thesis
    by (auto intro!: exI[of _ "[MessagesList ?p ?r]"] attempt_single)
qed

lemma fetch_loop_attempt:
  "fetch_loop g q b m fs s = (r, s') \<Longrightarrow> \<exists>cs. trace s' = trace s @ cs \<and> attempt cs (thrown_of r)"
proof (induction g q b m fs s rule: fetch_loop.induct)
  case (1 g q b m fs s)
  show ?case
  proof (cases "int (batchCount fs) < m")
    case False
    with "1.prems" show ?thesis
      by (auto simp: fetch_loop.simps[of g q b m fs s] attempt_Nil)
  next
    case True
    obtain st s1 where body: "fetch_body g q b fs s = (st, s1)"
      by (cases "fetch_body g q b fs s") auto
    from fetch_body_attempt[OF body] obtain cs where
      c: "trace s1 = trace s @ cs" "attempt cs (fetch_thrown st)" by blast
    show ?thesis
    proof (cases st)
      case (FNext f1)
      with True body "1.prems" have "fetch_loop g q b m f1 s1 = (r, s')"
        by (simp add: fetch_loop.simps[of g q b m fs s])
      from "1.IH"[OF True body[symmetric] FNext this] obtain ds where
        d: "trace s' = trace s1 @ ds" "attempt ds (thrown_of r)" by blast
      from c(2) FNext have c': "attempt cs None" by simp
      have "attempt (cs @ ds) (thrown_of r)"
        by (rule attempt_append[OF c' d(2)])
      moreover from c(1) d(1) have "trace s' = trace s @ (cs @ ds)" by simp
      ultimately show ?thesis by blast
    next
      case (FBreak f1)
      with True body "1.prems" have "s' = s1" "r = Inr f1"
        by (simp_all add: fetch_loop.simps[of g q b m fs s])
      with c FBreak show ?thesis by auto
    next
      case (FRaise e)
      with True body "1.prems" have "s' = s1" "r = Inl e"
        by (simp_all add: fetch_loop.simps[of g q b m fs s])
      with c FRaise show ?thesis by auto
    qed
  qed
qed

lemma apply_chunks_attempt:
  "apply_chunks g l ids n s = (r, s') \<Longrightarrow> \<exists>cs. trace s' = trace s @ cs \<and> attempt cs (thrown_of r)"
proof (induction g l ids n s rule: apply_chunks.induct)
  case (1 g l ids n s)
  show ?case
  proof (cases "ids = []")
    case True
    with "1.prems" show ?thesis
      by (auto simp: apply_chunks.simps[of g l "[]" n s] attempt_Nil)
  next
    case False
    let ?b = "add_label_body (take 1000 ids) l"
    obtain x m where bm: "messages_batchModify g (mailbox s) ?b = (x, m)"
      by (cases "messages_batchModify g (mailbox s) ?b") auto
    let ?s1 = "\<lparr>mailbox = m, trace = trace s @ [BatchModify ?b x]\<rparr>"
    from bm have c: "call_batchModify g ?b s = (x, ?s1)"
      by (simp add: call_batchModify_def)
    have a: "attempt [BatchModify ?b x] x" by (rule attempt_single) simp
    show ?thesis
    proof (cases x)
      case None
      with False c "1.prems" have "apply_chunks g l (drop 1000 ids) (n + length (take 1000 ids)) ?s1 = (r, s')"
        by (simp add: apply_chunks.simps[of g l ids n s] Let_def)
      from "1.IH"[OF False refl c[symmetric] None this] obtain ds where
        d: "trace s' = trace ?s1 @ ds" "attempt ds (thrown_of r)" by blast
      from a None have a': "attempt [BatchModify ?b x] None" by simp
      have "attempt ([BatchModify ?b x] @ ds) (thrown_of r)"
        by (rule attempt_append[OF a' d(2)])
      moreover from d(1) have "trace s' = trace s @ ([BatchModify ?b x] @ ds)" by simp
      ultimately show ?thesis by blast
    next
      case (Some e)
      with False c "1.prems" have "s' = ?s1" "r = Inl e"
        by (simp_all add: apply_chunks.simps[of g l ids n s] Let_def)
      with a Some show ?thesis by (auto intro!: exI[of _ "[BatchModify ?b x]"])
    qed
  qed
qed

lemma thrown_in_append: "thrown_in (cs @ ds) = thrown_in cs @ thrown_in ds"
  by (induction cs) (auto split: option.splits)

lemma thrown_in_none: "\<forall>c \<in> set cs. call_error c = None \<Longrightarrow> thrown_in cs = []"
  by (induction cs) auto

lemma thrown_in_attempt:
  "attempt cs r \<Longrightarrow> thrown_in cs = (case r of None \<Rightarrow> [] | Some e \<Rightarrow> [e])"
proof (cases r)
  case None
  assume "attempt cs r"
  with None show ?thesis by (simp add: attempt_def thrown_in_none)
next
  case (Some e)
  assume "attempt cs r"
  with Some have a: "cs \<noteq> []" "call_error (last cs) = Some e" "\<forall>c \<in> set (butlast cs). call_error c = None"
    by (simp_all add: attempt_def)
  from a(1) have "cs = butlast cs @ [last cs]" by simp
  then have "thrown_in cs = thrown_in (butlast cs) @ thrown_in [last cs]"
    by (metis thrown_in_append)
  with a Some show ?thesis by (simp add: thrown_in_none)
qed

lemma nth_update_same_field:
  "f x = f (xs ! i) \<Longrightarrow> f (xs[i := x] ! j) = f (xs ! j)"
  by (cases "i < length xs") (auto simp: nth_list_update list_update_beyond)

lemma save_keeps_write_error:
  "saveAutoLabelingRules rs st = (r, st') \<Longrightarrow> fs_write_error st' = fs_write_error st"
  by (auto simp: saveAutoLabelingRules_def split: option.splits)

lemma run_rule_outcome:
  assumes "run_rule g d b m i (mem, st, s) = (oc, mem', st', s')"
  shows "outcome_rule oc = label_name (mem ! i) \<and>
         (\<forall>j. label_name (mem' ! j) = label_name (mem ! j)) \<and>
         fs_write_error st' = fs_write_error st \<and>
         (fs_write_error st = None \<longrightarrow>
            (\<exists>cs. trace s' = trace s @ cs \<and> thrown_in cs = outcome_errors oc))"
proof -
  let ?r = "mem ! i"
  let ?f0 = "\<lparr>totalEmailsFound = 0, allMessageIds = [], f_nextPageToken = Null, batchCount = 0\<rparr>"
  obtain x s1 where rl: "resolve_label g (label_name ?r) s = (x, s1)"
    by (cases "resolve_label g (label_name ?r) s") auto
  from resolve_label_attempt[OF rl] obtain c1 where
    c1: "trace s1 = trace s @ c1" "attempt c1 (thrown_of x)" by blast
  show ?thesis
  proof (cases x)
    case (Inl e)
    with assms rl have "oc = Failure \<lparr>re_rule = label_name ?r, re_error = e\<rparr>" "mem' = mem" "st' = st"
      "s' = s1" by (auto simp: run_rule_def)
    with c1 Inl thrown_in_attempt[OF c1(2)] show ?thesis by auto
  next
    case (Inr lid)
    with c1 have t1: "thrown_in c1 = []" using thrown_in_attempt[OF c1(2)] by simp
    show ?thesis
    proof (cases "truthy_str (run_searchQuery ?r)")
      case False
      with Inr assms rl have "outcome_rule oc = label_name ?r" "outcome_errors oc = []" "mem' = mem"
        "st' = st" "s' = s1" by (auto simp: run_rule_def)
      with c1 t1 show ?thesis by auto
    next
      case tq: True
      obtain y s2 where fl: "fetch_loop g (str_of (run_searchQuery ?r)) b m ?f0 s1 = (y, s2)"
        by (cases "fetch_loop g (str_of (run_searchQuery ?r)) b m ?f0 s1") auto
      from fetch_loop_attempt[OF fl] obtain c2 where
        c2: "trace s2 = trace s1 @ c2" "attempt c2 (thrown_of y)" by blast
      show ?thesis
      proof (cases y)
        case (Inl e)
        with Inr tq assms rl fl have "oc = Failure \<lparr>re_rule = label_name ?r, re_error = e\<rparr>"
          "mem' = mem" "st' = st" "s' = s2" by (auto simp: run_rule_def)
        moreover from Inl c1 c2 t1 have "trace s2 = trace s @ (c1 @ c2)" "thrown_in (c1 @ c2) = [e]"
          using thrown_in_attempt[OF c2(2)] by (simp_all add: thrown_in_append)
        ultimately show ?thesis by auto
      next
        case found: (Inr fs0)
        with c2 have t2: "thrown_in c2 = []" using thrown_in_attempt[OF c2(2)] by simp
        show ?thesis
        proof (cases "totalEmailsFound fs0 = 0 \<or> d")
          case True
          with found Inr tq assms rl fl have "outcome_rule oc = label_name ?r" "outcome_errors oc = []"
            "mem' = mem" "st' = st" "s' = s2" by (auto simp: run_rule_def Let_def split: if_splits)
          moreover from c1 c2 t1 t2 have "trace s2 = trace s @ (c1 @ c2)" "thrown_in (c1 @ c2) = []"
            by (simp_all add: thrown_in_append)
          ultimately show ?thesis by auto
        next
          case False
          obtain z s3 where ac: "apply_chunks g lid (allMessageIds fs0) 0 s2 = (z, s3)"
            by (cases "apply_chunks g lid (allMessageIds fs0) 0 s2") auto
          from apply_chunks_attempt[OF ac] obtain c3 where
            c3: "trace s3 = trace s2 @ c3" "attempt c3 (thrown_of z)" by blast
          have tr: "trace s3 = trace s @ (c1 @ c2 @ c3)" using c1 c2 c3 by simp
          show ?thesis
          proof (cases z)
            case (Inl e)
            with False found Inr tq assms rl fl ac have "oc = Failure \<lparr>re_rule = label_name ?r, re_error = e\<rparr>"
              "mem' = mem" "st' = st" "s' = s3" by (auto simp: run_rule_def Let_def)
            moreover from Inl t1 t2 have "thrown_in (c1 @ c2 @ c3) = [e]"
              using thrown_in_attempt[OF c3(2)] by (simp add: thrown_in_append)
            ultimately show ?thesis using tr by auto
          next
            case labeled: (Inr n)
            let ?mem = "mem[i := ?r\<lparr>last_run := Val (now st)\<rparr>]"
            obtain w st1 where sv: "saveAutoLabelingRules ?mem st = (w, st1)"
              by (cases "saveAutoLabelingRules ?mem st") auto
            from labeled t1 t2 have t3: "thrown_in (c1 @ c2 @ c3) = []"
              using thrown_in_attempt[OF c3(2)] by (simp add: thrown_in_append)
            have nm: "\<forall>j. label_name (?mem ! j) = label_name (mem ! j)"
              by (simp add: nth_update_same_field)
            from labeled False found Inr tq assms rl fl ac sv
            have e: "outcome_rule oc = label_name ?r" "mem' = ?mem" "st' = st1" "s' = s3"
              "fs_write_error st = None \<longrightarrow> outcome_errors oc = []"
              by (auto simp: run_rule_def Let_def saveAutoLabelingRules_def split: option.splits)
            with nm tr t3 save_keeps_write_error[OF sv] show ?thesis by auto
          qed
        qed
      qed
    qed
  qed
qed

lemma record_outcome_counts:
  "record_outcome oc (res, ers) = (res', ers') \<Longrightarrow>
   length res' + length ers' = Suc (length res + length ers) \<and>
   mset (map rr_rule res') + mset (map re_rule ers') =
     mset (map rr_rule res) + mset (map re_rule ers) + {#outcome_rule oc#} \<and>
   map re_error ers' = map re_error ers @ outcome_errors oc"
  by (cases oc) auto

lemma run_loop_outcomes:
  assumes "run_loop g d b m is (res, ers) (mem, st, s) = ((res', ers'), mem', st', s')"
  shows "length res' + length ers' = length res + length ers + length is \<and>
         mset (map rr_rule res') + mset (map re_rule ers') =
           mset (map rr_rule res) + mset (map re_rule ers) + mset (map (\<lambda>i. label_name (mem ! i)) is) \<and>
         (fs_write_error st = None \<longrightarrow>
            (\<exists>cs. trace s' = trace s @ cs \<and> map re_error ers' = map re_error ers @ thrown_in cs))"
  using assms
proof (induction "is" arbitrary: res ers mem st s)
  case Nil
  then show ?case by auto
next
  case (Cons i "is")
  obtain oc mem1 st1 s1 where r: "run_rule g d b m i (mem, st, s) = (oc, mem1, st1, s1)"
    by (cases "run_rule g d b m i (mem, st, s)") auto
  obtain res1 ers1 where ro: "record_outcome oc (res, ers) = (res1, ers1)"
    by (cases "record_outcome oc (res, ers)") auto
  from Cons.prems r ro have
    l: "run_loop g d b m is (res1, ers1) (mem1, st1, s1) = ((res', ers'), mem', st', s')"
    by simp
  note ih = Cons.IH[OF l]
  note rr = run_rule_outcome[OF r]
  note rc = record_outcome_counts[OF ro]
  from rr have names: "map (\<lambda>i. label_name (mem1 ! i)) is = map (\<lambda>i. label_name (mem ! i)) is"
    by simp
  have a: "length res' + length ers' = length res + length ers + length (i # is)"
    using ih rc by simp
  have b: "mset (map rr_rule res') + mset (map re_rule ers') =
           mset (map rr_rule res) + mset (map re_rule ers) + mset (map (\<lambda>i. label_name (mem ! i)) (i # is))"
    using ih rc rr names by simp
  have c: "fs_write_error st = None \<longrightarrow>
            (\<exists>cs. trace s' = trace s @ cs \<and> map re_error ers' = map re_error ers @ thrown_in cs)"
  proof
    assume w: "fs_write_error st = None"
    with rr obtain cs where cs: "trace s1 = trace s @ cs" "thrown_in cs = outcome_errors oc"
      by blast
    from w rr ih obtain ds where ds: "trace s' = trace s1 @ ds"
      "map re_error ers' = map re_error ers1 @ thrown_in ds"
      by auto
    from cs ds rc have "trace s' = trace s @ (cs @ ds)"
      "map re_error ers' = map re_error ers @ thrown_in (cs @ ds)"
      by (simp_all add: thrown_in_append)
    then show "\<exists>cs. trace s' = trace s @ cs \<and> map re_error ers' = map re_error ers @ thrown_in cs"
      by blast
  qed
  from a b c show ?case by blast
qed

lemma enabledRules_rules:
  "map (\<lambda>i. rs ! i) (enabledRules rs) = filter (\<lambda>r. enabled r \<noteq> Val False) rs"
proof -
  have "filter (\<lambda>r. enabled r \<noteq> Val False) (map (\<lambda>i. rs ! i) [0..<length rs])
          = map (\<lambda>i. rs ! i) (filter ((\<lambda>r. enabled r \<noteq> Val False) \<circ> (\<lambda>i. rs ! i)) [0..<length rs])"
    by (rule filter_map)
  then show ?thesis
    by (simp add: enabledRules_def map_nth comp_def)
qed

lemma enabledRules_names:
  "map (\<lambda>i. label_name (rs ! i)) (enabledRules rs) = map label_name (filter (\<lambda>r. enabled r \<noteq> Val False) rs)"
  using arg_cong[OF enabledRules_rules[of rs], of "map label_name"] by (simp add: comp_def)

lemma length_enabledRules:
  "length (enabledRules rs) = length (filter (\<lambda>r. enabled r \<noteq> Val False) rs)"
  using arg_cong[OF enabledRules_rules[of rs], of length] by simp

lemma autoLabel_loop_counts:
  "autoLabel_loop g d rs (res, ers) s = ((res', ers'), s') \<Longrightarrow>
   length res' + length ers' = length res + length ers + length rs"
proof (induction rs arbitrary: res ers s)
  case Nil
  then show ?case by simp
next
  case (Cons r rs)
  obtain oc s1 where a: "autoLabel_rule g d r s = (oc, s1)"
    by (cases "autoLabel_rule g d r s") auto
  obtain res1 ers1 where ro: "record_outcome oc (res, ers) = (res1, ers1)"
    by (cases "record_outcome oc (res, ers)") auto
  from Cons.prems a ro have "autoLabel_loop g d rs (res1, ers1) s1 = ((res', ers'), s')" by simp
  from Cons.IH[OF this] record_outcome_counts[OF ro] show ?case by simp
qed

lemma labels_calls_silent:
  assumes "resolve_label g n s = (r, s1)"
  shows "listed (trace s1) = listed (trace s) \<and> modify_calls (trace s1) = modify_calls (trace s)"
  using assms
  by (auto simp: resolve_label_def call_labels_list_def call_labels_create_def Let_def
        listed_append modify_calls_append split: sum.splits option.splits prod.splits)

lemma run_rule_no_criteria:
  assumes "no_search_criteria (mem ! i)"
  shows "run_rule g d b m i (mem, st, s) =
           (case resolve_label g (label_name (mem ! i)) s of
              (Inr labelId, s1) \<Rightarrow> (Result (no_criteria_result (mem ! i) labelId), mem, st, s1)
            | (Inl e, s1) \<Rightarrow> (Failure \<lparr>re_rule = label_name (mem ! i), re_error = e\<rparr>, mem, st, s1))"
proof -
  from assms have "\<not> truthy_str (run_searchQuery (mem ! i))"
    by (simp add: no_search_criteria_def run_searchQuery_def)
  then show ?thesis
    by (simp add: run_rule_def Let_def no_criteria_result_def split: prod.splits sum.splits)
qed

lemma record_outcome_segment:
  assumes "record_outcome oc (res, ers) = (res', ers')"
    and "outcome_rule oc = n" and "thrown_in cs = outcome_errors oc"
  shows "ers' = ers @ rule_errors [(n, cs)] \<and>
         map rr_rule res' = map rr_rule res @ rule_successes [(n, cs)]"
  using assms by (cases oc) auto

lemma rule_errors_Cons: "rule_errors (x # xs) = rule_errors [x] @ rule_errors xs"
  by (cases x) (auto split: list.splits)

lemma rule_successes_Cons: "rule_successes (x # xs) = rule_successes [x] @ rule_successes xs"
  by (cases x) (auto split: list.splits)

lemma run_loop_segments:
  assumes "run_loop g d b m is (res, ers) (mem, st, s) = ((res', ers'), mem', st', s')"
    and "fs_write_error st = None"
  shows "\<exists>css. length css = length is \<and> trace s' = trace s @ concat css \<and>
           ers' = ers @ rule_errors (zip (map (\<lambda>i. label_name (mem ! i)) is) css) \<and>
           map rr_rule res' = map rr_rule res @
             rule_successes (zip (map (\<lambda>i. label_name (mem ! i)) is) css)"
  using assms
proof (induction "is" arbitrary: res ers mem st s)
  case Nil
  then show ?case by auto
next
  case (Cons i "is")
  obtain oc mem1 st1 s1 where r: "run_rule g d b m i (mem, st, s) = (oc, mem1, st1, s1)"
    by (cases "run_rule g d b m i (mem, st, s)") auto
  obtain res1 ers1 where ro: "record_outcome oc (res, ers) = (res1, ers1)"
    by (cases "record_outcome oc (res, ers)") auto
  from Cons.prems(1) r ro have
    l: "run_loop g d b m is (res1, ers1) (mem1, st1, s1) = ((res', ers'), mem', st', s')"
    by simp
  note rr = run_rule_outcome[OF r]
  from rr Cons.prems(2) have w1: "fs_write_error st1 = None" by simp
  from rr Cons.prems(2) obtain cs where cs: "trace s1 = trace s @ cs" "thrown_in cs = outcome_errors oc"
    by blast
  from rr have nm: "outcome_rule oc = label_name (mem ! i)" by simp
  from rr have names: "map (\<lambda>i. label_name (mem1 ! i)) is = map (\<lambda>i. label_name (mem ! i)) is"
    by simp
  note seg = record_outcome_segment[OF ro nm cs(2)]
  from Cons.IH[OF l w1] obtain css where
    ih: "length css = length is" "trace s' = trace s1 @ concat css"
        "ers' = ers1 @ rule_errors (zip (map (\<lambda>i. label_name (mem1 ! i)) is) css)"
        "map rr_rule res' = map rr_rule res1 @ rule_successes (zip (map (\<lambda>i. label_name (mem1 ! i)) is) css)"
    by blast
  let ?ns = "map (\<lambda>i. label_name (mem ! i)) is"
  have a: "length (cs # css) = length (i # is)" using ih(1) by simp
  have b: "trace s' = trace s @ concat (cs # css)" using ih(2) cs(1) by simp
  have c: "ers' = ers @ rule_errors (zip (map (\<lambda>i. label_name (mem ! i)) (i # is)) (cs # css))"
    using ih(3) seg names rule_errors_Cons[of "(label_name (mem ! i), cs)" "zip ?ns css"] by simp
  have d: "map rr_rule res' = map rr_rule res @
             rule_successes (zip (map (\<lambda>i. label_name (mem ! i)) (i # is)) (cs # css))"
    using ih(4) seg names rule_successes_Cons[of "(label_name (mem ! i), cs)" "zip ?ns css"] by simp
  from a b c d show ?case by blast
qed

section \<open>The claims\<close>

subsection \<open>C1: what ends the pagination loop\<close>

text \<open>
  C1 says that the estimate of the probe never ends the loop of \<open>toolBulkDeleteEmails\<close>
  and \<open>toolBulkLabelEmails\<close>. The loop condition is \<open>processedCount < totalCount\<close>
  with \<open>totalCount\<close> the estimate, so the claim fails. What holds (C1 as amended): in
  every run that returns the batch result, the listing calls are the probe followed by
  the pages of the loop, and these pages obey \<open>loop_pages\<close>: a page is fetched only
  while fewer messages than the estimate are processed, and the loop ends with the first
  page that is empty, that carries no next-page token, or that brings the processed count
  up to the estimate; \<open>total_processed\<close> is the number of messages on the fetched
  pages.
\<close>

theorem bulk_loop_bounded_by_estimate:
  "(toolBulkDeleteEmails g qa b p d s = (Inr (Completed r), s') \<longrightarrow>
      (\<exists>probe ps. listed (trace s') = listed (trace s) @ probe # ps \<and>
         loop_pages (nat_or_zero (lr_resultSizeEstimate probe)) 0 ps \<and>
         total_processed r = sum_list (map page_size ps))) \<and>
   (toolBulkLabelEmails g qa lids op b d t = (Inr (LabelCompleted r' op' lids'), t') \<longrightarrow>
      (\<exists>probe ps. listed (trace t') = listed (trace t) @ probe # ps \<and>
         loop_pages (nat_or_zero (lr_resultSizeEstimate probe)) 0 ps \<and>
         total_processed r' = sum_list (map page_size ps)))"
proof (intro conjI impI)
  assume "toolBulkDeleteEmails g qa b p d s = (Inr (Completed r), s')"
  from bulk_delete_Completed[OF this] obtain probe s1 ls where
    h: "call_list g (probe_params (str_of qa)) s = (Inr probe, s1)"
       "page_loop g (delete_action g (truthy_bool p)) (str_of qa)
             (nat_or_zero (lr_resultSizeEstimate probe))
             (clamp 10 500 (delete_batch_size b)) init_loop_state s1 = (Inr ls, s')"
       "r = make_result (str_of qa) (clamp 10 500 (delete_batch_size b)) ls"
    by blast
  from probe_then_loop[OF h(1) h(2) quiet_delete_action] obtain outs where
    o: "listed (trace s') = listed (trace s) @ probe # map fst outs"
       "loop_pages (nat_or_zero (lr_resultSizeEstimate probe)) 0 (map fst outs)"
       "counts ls = tally (clamp 10 500 (delete_batch_size b)) (0, 0, 0, []) (map (\<lambda>(p, r). (page_size p, r)) outs)"
    by blast
  have "total_processed r = sum_list (map page_size (map fst outs))"
    using counts_processed[OF o(3)] h(3) by (simp add: make_result_def)
  with o(1,2) show "\<exists>probe ps. listed (trace s') = listed (trace s) @ probe # ps \<and>
         loop_pages (nat_or_zero (lr_resultSizeEstimate probe)) 0 ps \<and>
         total_processed r = sum_list (map page_size ps)"
    by blast
next
  assume "toolBulkLabelEmails g qa lids op b d t = (Inr (LabelCompleted r' op' lids'), t')"
  from bulk_label_Completed[OF this] obtain probe s1 ls where
    h: "call_list g (probe_params (str_of qa)) t = (Inr probe, s1)"
       "page_loop g (label_action g op' lids') (str_of qa)
             (nat_or_zero (lr_resultSizeEstimate probe))
             (clamp 10 500 (label_batch_size b)) init_loop_state s1 = (Inr ls, t')"
       "r' = make_result (str_of qa) (clamp 10 500 (label_batch_size b)) ls"
    by blast
  from probe_then_loop[OF h(1) h(2) quiet_label_action] obtain outs where
    o: "listed (trace t') = listed (trace t) @ probe # map fst outs"
       "loop_pages (nat_or_zero (lr_resultSizeEstimate probe)) 0 (map fst outs)"
       "counts ls = tally (clamp 10 500 (label_batch_size b)) (0, 0, 0, []) (map (\<lambda>(p, r). (page_size p, r)) outs)"
    by blast
  have "total_processed r' = sum_list (map page_size (map fst outs))"
    using counts_processed[OF o(3)] h(3) by (simp add: make_result_def)
  with o(1,2) show "\<exists>probe ps. listed (trace t') = listed (trace t) @ probe # ps \<and>
         loop_pages (nat_or_zero (lr_resultSizeEstimate probe)) 0 ps \<and>
         total_processed r' = sum_list (map page_size ps)"
    by blast
qed

text \<open>
  The claim as stated fails: with twelve matching messages, pages of ten and an estimate
  of one, the loop ends after the first page although that page is full and carries a
  next-page token; two messages are never processed.
\<close>

theorem bulk_estimate_ends_loop_counterexample:
  "fst (toolBulkDeleteEmails sim_gmail (Val ''q'') (Val 10) (Val True) (Val False) (start undercount))
     = Inr (Completed \<lparr>br_query = ''q'', total_processed = 10, successful = 10, failed = 0,
                      br_batch_size = 10, batches_processed = 1, br_errors = Undefined\<rparr>) \<and>
   map (\<lambda>p. (page_size p, has_next p))
     (listed (trace (snd (toolBulkDeleteEmails sim_gmail (Val ''q'') (Val 10) (Val True) (Val False)
        (start undercount)))))
     = [(1, True), (10, True)] \<and>
   length (sim_msgs undercount) = 12 \<and>
   sim_gone (mailbox (snd (toolBulkDeleteEmails sim_gmail (Val ''q'') (Val 10) (Val True) (Val False)
        (start undercount))))
     = [''a'', ''b'', ''c'', ''d'', ''e'', ''f'', ''g'', ''h'', ''i'', ''j'']"
  by code_simp

theorem bulk_loop_bounded_by_estimate_witness:
  "\<exists>r s' r' t'.
     toolBulkDeleteEmails sim_gmail (Val ''q'') (Val 10) (Val True) (Val False) (start undercount)
       = (Inr (Completed r), s') \<and>
     (\<exists>probe ps. listed (trace s') = listed (trace (start undercount)) @ probe # ps \<and>
         loop_pages (nat_or_zero (lr_resultSizeEstimate probe)) 0 ps \<and>
         total_processed r = sum_list (map page_size ps)) \<and>
     toolBulkLabelEmails sim_gmail (Val ''q'') (Val [''Label_1'']) (Val ''add'') (Val 10) (Val False) (start sim0)
       = (Inr (LabelCompleted r' (Val ''add'') [''Label_1'']), t') \<and>
     (\<exists>probe ps. listed (trace t') = listed (trace (start sim0)) @ probe # ps \<and>
         loop_pages (nat_or_zero (lr_resultSizeEstimate probe)) 0 ps \<and>
         total_processed r' = sum_list (map page_size ps))"
proof -
  have "case toolBulkDeleteEmails sim_gmail (Val ''q'') (Val 10) (Val True) (Val False) (start undercount)
        of (Inr (Completed r), s') \<Rightarrow> True | _ \<Rightarrow> False"
    by code_simp
  then obtain r s' where
    a: "toolBulkDeleteEmails sim_gmail (Val ''q'') (Val 10) (Val True) (Val False) (start undercount)
         = (Inr (Completed r), s')"
    by (auto split: prod.splits sum.splits delete_output.splits)
  have "case toolBulkLabelEmails sim_gmail (Val ''q'') (Val [''Label_1'']) (Val ''add'') (Val 10) (Val False) (start sim0)
        of (Inr (LabelCompleted r op l), s') \<Rightarrow> op = Val ''add'' \<and> l = [''Label_1''] | _ \<Rightarrow> False"
    by code_simp
  then obtain r' t' where
    b: "toolBulkLabelEmails sim_gmail (Val ''q'') (Val [''Label_1'']) (Val ''add'') (Val 10) (Val False) (start sim0)
         = (Inr (LabelCompleted r' (Val ''add'') [''Label_1'']), t')"
    by (auto split: prod.splits sum.splits label_output.splits)
  from a b bulk_loop_bounded_by_estimate[of sim_gmail "Val ''q''" "Val 10" "Val True" "Val False"
      "start undercount" r s' "Val [''Label_1'']" "Val ''add''" "start sim0" r' "Val ''add''" "[''Label_1'']" t']
  show ?thesis by blast
qed

subsection \<open>C2: the synthesized query\<close>

text \<open>
  C2 says that every path that synthesizes a query builds it from all three pattern
  fields. Only \<open>toolAddAutoLabelingRule\<close> does. What holds (C2 as amended), for every
  rule: \<open>toolAddAutoLabelingRule\<close> computes the effective query of the specification
  (the query verbatim, else the \<open>from:\<close> clause, the quoted \<open>subject:\<close> clause and
  one parenthesized OR-group of quoted subject clauses, joined by one space);
  \<open>toolAutoLabelEmails\<close> computes it with \<open>subject_contains\<close> left out; and
  \<open>toolRunAutoLabelingRules\<close> computes it with \<open>sender_pattern\<close> and
  \<open>subject_pattern\<close> left out, that is, the stored query or else the OR-group alone.
\<close>

theorem query_synthesis_per_path:
  "add_searchQuery (sender_pattern r) (subject_pattern r) (subject_contains r) (query r)
     = spec_effective_query r \<and>
   autoLabel_query r = spec_effective_query (r\<lparr>subject_contains := Null\<rparr>) \<and>
   str_of (run_searchQuery r) = spec_effective_query (r\<lparr>sender_pattern := Null, subject_pattern := Null\<rparr>)"
proof (intro conjI)
  show "add_searchQuery (sender_pattern r) (subject_pattern r) (subject_contains r) (query r)
     = spec_effective_query r"
    by (simp add: add_searchQuery_def spec_effective_query_def conditions3_def from_clause_def
        subject_clause_def [abs_def] or_group_def)
  show "autoLabel_query r = spec_effective_query (r\<lparr>subject_contains := Null\<rparr>)"
    by (simp add: autoLabel_query_def spec_effective_query_def from_clause_def subject_clause_def)
  show "str_of (run_searchQuery r) = spec_effective_query (r\<lparr>sender_pattern := Null, subject_pattern := Null\<rparr>)"
    by (cases "query r")
       (auto simp add: run_searchQuery_def spec_effective_query_def or_group_def subject_clause_def [abs_def])
qed

text \<open>
  The claim as stated fails: for a rule with \<open>subject_contains\<close> only,
  \<open>toolAutoLabelEmails\<close> synthesizes the empty query, and for a rule with
  \<open>sender_pattern\<close> only and no stored query, \<open>toolRunAutoLabelingRules\<close> has no
  query at all.
\<close>

theorem query_synthesis_counterexample:
  "autoLabel_query (blank_rule\<lparr>subject_contains := Val [''invoice'']\<rparr>) = [] \<and>
   spec_effective_query (blank_rule\<lparr>subject_contains := Val [''invoice'']\<rparr>)
     = ''(subject:'' @ [dquote] @ ''invoice'' @ [dquote] @ '')'' \<and>
   run_searchQuery (blank_rule\<lparr>sender_pattern := Val ''boss@corp.example''\<rparr>) = Undefined \<and>
   spec_effective_query (blank_rule\<lparr>sender_pattern := Val ''boss@corp.example''\<rparr>)
     = ''from:boss@corp.example''"
  by (simp add: autoLabel_query_def spec_effective_query_def run_searchQuery_def blank_rule_def)

subsection \<open>C3: where a failed batch call falls back to single calls\<close>




subsection \<open>C4: the counts of a batch result add up\<close>



subsection \<open>C5: a rule without search criteria\<close>

text \<open>
  C5: a rule with no query, sender pattern, subject pattern or subject-contains list is
  rejected by \<open>toolAddAutoLabelingRule\<close> with InvalidParams, the store unchanged.
  \<open>toolAutoLabelEmails\<close> records the error \<open>No search criteria provided\<close> for it
  without any call to the mailbox and goes on with the next rule; the tool returns, with
  one outcome per rule. \<open>toolRunAutoLabelingRules\<close> resolves the label of such a rule
  and records the result \<open>no_search_criteria\<close> (or the error of the label lookup, if it
  throws); it issues no listing and no batch-modify call for the rule, so the empty query is
  not a wildcard, and the run returns one outcome per enabled rule.
\<close>

theorem empty_query_is_an_error:
  "(no_criteria_args args \<longrightarrow>
      (\<exists>msg. toolAddAutoLabelingRule args st = (Inl (McpError InvalidParams msg), st))) \<and>
   (no_search_criteria r \<longrightarrow>
      autoLabel_rule g d r s = (Failure (no_criteria_error r), s) \<and>
      autoLabel_loop g d (r # rs) (res, ers) s = autoLabel_loop g d rs (res, ers @ [no_criteria_error r]) s) \<and>
   (nonempty_array rules_arg \<longrightarrow>
      (\<exists>sm s'. toolAutoLabelEmails g rules_arg dry s = (Inr sm, s') \<and>
         al_successful sm + al_failed sm = length (or_empty rules_arg))) \<and>
   (no_search_criteria (mem ! i) \<longrightarrow>
      run_rule g d b m i (mem, st, t) =
        (case resolve_label g (label_name (mem ! i)) t of
           (Inr labelId, t1) \<Rightarrow> (Result (no_criteria_result (mem ! i) labelId), mem, st, t1)
         | (Inl e, t1) \<Rightarrow> (Failure \<lparr>re_rule = label_name (mem ! i), re_error = e\<rparr>, mem, st, t1)) \<and>
      listed (trace (snd (snd (snd (run_rule g d b m i (mem, st, t)))))) = listed (trace t) \<and>
      modify_calls (trace (snd (snd (snd (run_rule g d b m i (mem, st, t)))))) = modify_calls (trace t)) \<and>
   (toolRunAutoLabelingRules g dry bs mb (st, t) = (RunDone sm, st', t') \<longrightarrow>
      rs_processed sm + rs_failed sm = rs_enabled_rules sm)"
proof (intro conjI impI)
  assume "no_criteria_args args"
  then show "\<exists>msg. toolAddAutoLabelingRule args st = (Inl (McpError InvalidParams msg), st)"
    by (intro add_rejects_no_criteria) (simp_all add: no_criteria_args_def)
next
  assume n: "no_search_criteria r"
  then show a: "autoLabel_rule g d r s = (Failure (no_criteria_error r), s)"
    by (simp add: autoLabel_rule_def autoLabel_query_def no_search_criteria_def no_criteria_error_def)
  show "autoLabel_loop g d (r # rs) (res, ers) s = autoLabel_loop g d rs (res, ers @ [no_criteria_error r]) s"
    by (simp add: a)
next
  assume ne: "nonempty_array rules_arg"
  obtain res ers s' where l: "autoLabel_loop g (truthy_bool dry) (or_empty rules_arg) ([], []) s = ((res, ers), s')"
    by (cases "autoLabel_loop g (truthy_bool dry) (or_empty rules_arg) ([], []) s") auto
  from autoLabel_loop_counts[OF l] ne l
  show "\<exists>sm s'. toolAutoLabelEmails g rules_arg dry s = (Inr sm, s') \<and>
         al_successful sm + al_failed sm = length (or_empty rules_arg)"
    by (simp add: toolAutoLabelEmails_def Let_def)
next
  assume n: "no_search_criteria (mem ! i)"
  show eq: "run_rule g d b m i (mem, st, t) =
        (case resolve_label g (label_name (mem ! i)) t of
           (Inr labelId, t1) \<Rightarrow> (Result (no_criteria_result (mem ! i) labelId), mem, st, t1)
         | (Inl e, t1) \<Rightarrow> (Failure \<lparr>re_rule = label_name (mem ! i), re_error = e\<rparr>, mem, st, t1))"
    by (rule run_rule_no_criteria[OF n])
  obtain x t1 where rl: "resolve_label g (label_name (mem ! i)) t = (x, t1)"
    by (cases "resolve_label g (label_name (mem ! i)) t") auto
  with eq have "snd (snd (snd (run_rule g d b m i (mem, st, t)))) = t1"
    by (cases x) simp_all
  with labels_calls_silent[OF rl]
  show "listed (trace (snd (snd (snd (run_rule g d b m i (mem, st, t)))))) = listed (trace t)"
    and "modify_calls (trace (snd (snd (snd (run_rule g d b m i (mem, st, t)))))) = modify_calls (trace t)"
    by simp_all
next
  assume "toolRunAutoLabelingRules g dry bs mb (st, t) = (RunDone sm, st', t')"
  then obtain res ers mem1 where
    l: "run_loop g (case dry of Undefined \<Rightarrow> False | x \<Rightarrow> truthy_bool x) (num_default 100 bs)
          (num_default 10 mb) (enabledRules (loadAutoLabelingRules st)) ([], [])
          (loadAutoLabelingRules st, st, t) = ((res, ers), mem1, st', t')"
    and sm: "rs_processed sm = length res" "rs_failed sm = length ers"
       "rs_enabled_rules sm = length (enabledRules (loadAutoLabelingRules st))"
    by (auto simp: toolRunAutoLabelingRules_def Let_def split: if_splits prod.splits)
  from run_loop_outcomes[OF l] sm show "rs_processed sm + rs_failed sm = rs_enabled_rules sm"
    by simp
qed

theorem empty_query_is_an_error_witness:
  "no_criteria_args bare_args \<and>
   (\<exists>msg. toolAddAutoLabelingRule bare_args (store_of two_rules)
            = (Inl (McpError InvalidParams msg), store_of two_rules)) \<and>
   no_search_criteria blank_rule \<and>
   autoLabel_rule sim_gmail False blank_rule (start small) = (Failure (no_criteria_error blank_rule), start small) \<and>
   nonempty_array (Val two_rules) \<and>
   (\<exists>sm s'. toolAutoLabelEmails sim_gmail (Val two_rules) (Val False) (start small) = (Inr sm, s') \<and>
      al_successful sm + al_failed sm = length (or_empty (Val two_rules))) \<and>
   no_search_criteria (two_rules ! 0) \<and>
   listed (trace (snd (snd (snd (run_rule sim_gmail False 100 10 0 (two_rules, store_of two_rules, start small))))))
     = listed (trace (start small)) \<and>
   (\<exists>sm st' t'. toolRunAutoLabelingRules sim_gmail (Val False) Undefined Undefined
                  (store_of two_rules, start small) = (RunDone sm, st', t') \<and>
      map rr_status (rs_results sm) = [''no_search_criteria'', ''labeled''] \<and>
      rs_processed sm + rs_failed sm = rs_enabled_rules sm)"
proof -
  have h1: "no_criteria_args bare_args"
    by (simp add: no_criteria_args_def bare_args_def no_args_def)
  have h2: "no_search_criteria blank_rule"
    by (simp add: no_search_criteria_def blank_rule_def)
  have h3: "nonempty_array (Val two_rules)"
    by (simp add: two_rules_def)
  have h4: "no_search_criteria (two_rules ! 0)"
    using h2 by (simp add: two_rules_def)
  have "case toolRunAutoLabelingRules sim_gmail (Val False) Undefined Undefined (store_of two_rules, start small)
        of (RunDone sm, st', t') \<Rightarrow> map rr_status (rs_results sm) = [''no_search_criteria'', ''labeled'']
         | _ \<Rightarrow> False"
    by code_simp
  then obtain sm st' t' where
    h5: "toolRunAutoLabelingRules sim_gmail (Val False) Undefined Undefined (store_of two_rules, start small)
           = (RunDone sm, st', t')"
        "map rr_status (rs_results sm) = [''no_search_criteria'', ''labeled'']"
    by (auto split: prod.splits run_output.splits)
  note t = empty_query_is_an_error[where args = bare_args and st = "store_of two_rules" and r = blank_rule
      and g = sim_gmail and d = False and s = "start small" and rs = "[project_rule]"
      and res = "[]" and ers = "[]" and rules_arg = "Val two_rules"
      and dry = "Val False" and mem = two_rules and i = 0 and b = 100 and m = 10 and t = "start small"
      and bs = Undefined and mb = Undefined and sm = sm and st' = st' and t' = t']
  have c1: "\<exists>msg. toolAddAutoLabelingRule bare_args (store_of two_rules)
            = (Inl (McpError InvalidParams msg), store_of two_rules)"
    by (rule mp[OF conjunct1[OF t] h1])
  have c2: "autoLabel_rule sim_gmail False blank_rule (start small)
            = (Failure (no_criteria_error blank_rule), start small)"
    by (rule conjunct1[OF mp[OF conjunct1[OF conjunct2[OF t]] h2]])
  have c3: "\<exists>sm s'. toolAutoLabelEmails sim_gmail (Val two_rules) (Val False) (start small) = (Inr sm, s') \<and>
      al_successful sm + al_failed sm = length (or_empty (Val two_rules))"
    by (rule mp[OF conjunct1[OF conjunct2[OF conjunct2[OF t]]] h3])
  have c4: "listed (trace (snd (snd (snd (run_rule sim_gmail False 100 10 0
            (two_rules, store_of two_rules, start small)))))) = listed (trace (start small))"
    by (rule conjunct1[OF conjunct2[OF mp[OF conjunct1[OF conjunct2[OF conjunct2[OF conjunct2[OF t]]]] h4]]])
  have c5: "rs_processed sm + rs_failed sm = rs_enabled_rules sm"
    by (rule mp[OF conjunct2[OF conjunct2[OF conjunct2[OF conjunct2[OF t]]]] h5(1)])
  from h5 c5 have c6: "\<exists>sm st' t'. toolRunAutoLabelingRules sim_gmail (Val False) Undefined Undefined
                  (store_of two_rules, start small) = (RunDone sm, st', t') \<and>
      map rr_status (rs_results sm) = [''no_search_criteria'', ''labeled''] \<and>
      rs_processed sm + rs_failed sm = rs_enabled_rules sm" by auto
  show ?thesis
    by (intro conjI) (fact h1 c1 h2 c2 h3 c3 h4 c4 c6)+
qed

subsection \<open>C6: enabled rules and failure isolation\<close>

text \<open>
  C6: \<open>toolRunAutoLabelingRules\<close> processes the rules whose \<open>enabled\<close> field is not
  \<open>false\<close>, and only these: the run returns one outcome per such rule, a result or an
  error, each carrying the \<open>label_name\<close> of its rule. When the rule file can be written,
  the trace of the run splits into the calls issued for each enabled rule, in order, and
  the error list holds, for each rule one of whose calls threw, the entry with the
  \<open>label_name\<close> of the rule and that exception, while every other rule has a result:
  each exception is caught and recorded for its rule, and the rules after it are processed.
\<close>

theorem run_processes_every_enabled_rule:
  "toolRunAutoLabelingRules g dry bs mb (st, s) = (out, st', s') \<longrightarrow>
     (filter (\<lambda>r. enabled r \<noteq> Val False) (loadAutoLabelingRules st) = [] \<longrightarrow>
        out = NoEnabledRules (length (loadAutoLabelingRules st))) \<and>
     (filter (\<lambda>r. enabled r \<noteq> Val False) (loadAutoLabelingRules st) \<noteq> [] \<longrightarrow>
        (\<exists>sm. out = RunDone sm \<and>
           rs_enabled_rules sm = length (filter (\<lambda>r. enabled r \<noteq> Val False) (loadAutoLabelingRules st)) \<and>
           rs_processed sm = length (rs_results sm) \<and>
           rs_failed sm = length (or_empty (rs_errors sm)) \<and>
           rs_processed sm + rs_failed sm = rs_enabled_rules sm \<and>
           mset (map rr_rule (rs_results sm)) + mset (map re_rule (or_empty (rs_errors sm))) =
             mset (map label_name (filter (\<lambda>r. enabled r \<noteq> Val False) (loadAutoLabelingRules st))) \<and>
           (fs_write_error st = None \<longrightarrow>
              (\<exists>css. length css = length (filter (\<lambda>r. enabled r \<noteq> Val False) (loadAutoLabelingRules st)) \<and>
                     trace s' = trace s @ concat css \<and>
                     or_empty (rs_errors sm) =
                       rule_errors (zip (map label_name
                         (filter (\<lambda>r. enabled r \<noteq> Val False) (loadAutoLabelingRules st))) css) \<and>
                     map rr_rule (rs_results sm) =
                       rule_successes (zip (map label_name
                         (filter (\<lambda>r. enabled r \<noteq> Val False) (loadAutoLabelingRules st))) css)))))"
proof (intro impI conjI)
  assume "toolRunAutoLabelingRules g dry bs mb (st, s) = (out, st', s')"
    and "filter (\<lambda>r. enabled r \<noteq> Val False) (loadAutoLabelingRules st) = []"
  then show "out = NoEnabledRules (length (loadAutoLabelingRules st))"
    using length_enabledRules[of "loadAutoLabelingRules st"]
    by (auto simp: toolRunAutoLabelingRules_def Let_def)
next
  let ?rs = "loadAutoLabelingRules st"
  let ?en = "filter (\<lambda>r. enabled r \<noteq> Val False) ?rs"
  let ?d = "case dry of Undefined \<Rightarrow> False | x \<Rightarrow> truthy_bool x"
  assume run: "toolRunAutoLabelingRules g dry bs mb (st, s) = (out, st', s')" and ne: "?en \<noteq> []"
  then have ne': "length (enabledRules ?rs) \<noteq> 0"
    using length_enabledRules[of ?rs] by simp
  obtain res ers mem1 st1 s1 where
    l: "run_loop g ?d (num_default 100 bs) (num_default 10 mb) (enabledRules ?rs) ([], []) (?rs, st, s)
          = ((res, ers), mem1, st1, s1)"
    by (cases "run_loop g ?d (num_default 100 bs) (num_default 10 mb) (enabledRules ?rs) ([], []) (?rs, st, s)")
       auto
  let ?sm = "\<lparr>rs_total_rules = length ?rs, rs_enabled_rules = length (enabledRules ?rs),
              rs_processed = length res, rs_failed = length ers, rs_results = res,
              rs_errors = (if length ers > 0 then Val ers else Undefined)\<rparr>"
  from run ne' l have o: "out = RunDone ?sm" "s' = s1"
    by (auto simp: toolRunAutoLabelingRules_def Let_def)
  have oe: "or_empty (rs_errors ?sm) = ers" by (cases ers) auto
  from run_loop_outcomes[OF l] have
    a: "length res + length ers = length (enabledRules ?rs)"
    and b: "mset (map rr_rule res) + mset (map re_rule ers) = mset (map (\<lambda>i. label_name (?rs ! i)) (enabledRules ?rs))"
    by simp_all
  have c: "fs_write_error st = None \<longrightarrow>
             (\<exists>css. length css = length ?en \<and> trace s1 = trace s @ concat css \<and>
                    ers = rule_errors (zip (map label_name ?en) css) \<and>
                    map rr_rule res = rule_successes (zip (map label_name ?en) css))"
  proof
    assume "fs_write_error st = None"
    from run_loop_segments[OF l this] show "\<exists>css. length css = length ?en \<and> trace s1 = trace s @ concat css \<and>
                    ers = rule_errors (zip (map label_name ?en) css) \<and>
                    map rr_rule res = rule_successes (zip (map label_name ?en) css)"
      by (simp add: enabledRules_names length_enabledRules)
  qed
  have "rs_enabled_rules ?sm = length ?en" by (simp add: length_enabledRules)
  moreover have "rs_processed ?sm = length (rs_results ?sm)" by simp
  moreover have "rs_failed ?sm = length (or_empty (rs_errors ?sm))" unfolding oe by simp
  moreover have "rs_processed ?sm + rs_failed ?sm = rs_enabled_rules ?sm" using a by simp
  moreover have "mset (map rr_rule (rs_results ?sm)) + mset (map re_rule (or_empty (rs_errors ?sm))) =
             mset (map label_name ?en)"
    unfolding oe using b by (simp add: enabledRules_names)
  moreover have "fs_write_error st = None \<longrightarrow>
              (\<exists>css. length css = length ?en \<and> trace s' = trace s @ concat css \<and>
                     or_empty (rs_errors ?sm) = rule_errors (zip (map label_name ?en) css) \<and>
                     map rr_rule (rs_results ?sm) = rule_successes (zip (map label_name ?en) css))"
    unfolding oe using c o(2) by simp
  ultimately show "\<exists>sm. out = RunDone sm \<and>
           rs_enabled_rules sm = length ?en \<and>
           rs_processed sm = length (rs_results sm) \<and>
           rs_failed sm = length (or_empty (rs_errors sm)) \<and>
           rs_processed sm + rs_failed sm = rs_enabled_rules sm \<and>
           mset (map rr_rule (rs_results sm)) + mset (map re_rule (or_empty (rs_errors sm))) =
             mset (map label_name ?en) \<and>
           (fs_write_error st = None \<longrightarrow>
              (\<exists>css. length css = length (filter (\<lambda>r. enabled r \<noteq> Val False) (loadAutoLabelingRules st)) \<and>
                     trace s' = trace s @ concat css \<and>
                     or_empty (rs_errors sm) =
                       rule_errors (zip (map label_name
                         (filter (\<lambda>r. enabled r \<noteq> Val False) (loadAutoLabelingRules st))) css) \<and>
                     map rr_rule (rs_results sm) =
                       rule_successes (zip (map label_name
                         (filter (\<lambda>r. enabled r \<noteq> Val False) (loadAutoLabelingRules st))) css)))"
    using o(1) by (intro exI[of _ ?sm] conjI)
qed

theorem run_processes_every_enabled_rule_witness:
  "\<exists>sm st' s'.
     toolRunAutoLabelingRules sim_gmail (Val False) Undefined Undefined (store_of mixed_rules, start small_bad)
       = (RunDone sm, st', s') \<and>
     filter (\<lambda>r. enabled r \<noteq> Val False) (loadAutoLabelingRules (store_of mixed_rules)) \<noteq> [] \<and>
     fs_write_error (store_of mixed_rules) = None \<and>
     or_empty (rs_errors sm) = [\<lparr>re_rule = Val ''A'', re_error = ''Invalid query''\<rparr>] \<and>
     map rr_rule (rs_results sm) = [Val ''Project X''] \<and>
     rs_enabled_rules sm = 2 \<and>
     rs_processed sm + rs_failed sm = rs_enabled_rules sm \<and>
     mset (map rr_rule (rs_results sm)) + mset (map re_rule (or_empty (rs_errors sm))) =
       mset (map label_name (filter (\<lambda>r. enabled r \<noteq> Val False) (loadAutoLabelingRules (store_of mixed_rules)))) \<and>
     (\<exists>css. length css = length (filter (\<lambda>r. enabled r \<noteq> Val False) (loadAutoLabelingRules (store_of mixed_rules))) \<and>
            trace s' = trace (start small_bad) @ concat css \<and>
            or_empty (rs_errors sm) =
              rule_errors (zip (map label_name
                (filter (\<lambda>r. enabled r \<noteq> Val False) (loadAutoLabelingRules (store_of mixed_rules)))) css) \<and>
            map rr_rule (rs_results sm) =
              rule_successes (zip (map label_name
                (filter (\<lambda>r. enabled r \<noteq> Val False) (loadAutoLabelingRules (store_of mixed_rules)))) css))"
proof -
  have "case toolRunAutoLabelingRules sim_gmail (Val False) Undefined Undefined (store_of mixed_rules, start small_bad)
        of (RunDone sm, st', t') \<Rightarrow>
             or_empty (rs_errors sm) = [\<lparr>re_rule = Val ''A'', re_error = ''Invalid query''\<rparr>] \<and>
             map rr_rule (rs_results sm) = [Val ''Project X''] \<and> rs_enabled_rules sm = 2
         | _ \<Rightarrow> False"
    by code_simp
  then obtain sm st' s' where
    h: "toolRunAutoLabelingRules sim_gmail (Val False) Undefined Undefined (store_of mixed_rules, start small_bad)
           = (RunDone sm, st', s')"
       "or_empty (rs_errors sm) = [\<lparr>re_rule = Val ''A'', re_error = ''Invalid query''\<rparr>]"
       "map rr_rule (rs_results sm) = [Val ''Project X'']" "rs_enabled_rules sm = 2"
    by (auto split: prod.splits run_output.splits)
  have ne: "filter (\<lambda>r. enabled r \<noteq> Val False) (loadAutoLabelingRules (store_of mixed_rules)) \<noteq> []"
    by code_simp
  have w: "fs_write_error (store_of mixed_rules) = None"
    by (simp add: store_of_def)
  from run_processes_every_enabled_rule[of sim_gmail "Val False" Undefined Undefined "store_of mixed_rules"
         "start small_bad" "RunDone sm" st' s'] h(1) ne w
  have "rs_processed sm + rs_failed sm = rs_enabled_rules sm \<and>
     mset (map rr_rule (rs_results sm)) + mset (map re_rule (or_empty (rs_errors sm))) =
       mset (map label_name (filter (\<lambda>r. enabled r \<noteq> Val False) (loadAutoLabelingRules (store_of mixed_rules)))) \<and>
     (\<exists>css. length css = length (filter (\<lambda>r. enabled r \<noteq> Val False) (loadAutoLabelingRules (store_of mixed_rules))) \<and>
            trace s' = trace (start small_bad) @ concat css \<and>
            or_empty (rs_errors sm) =
              rule_errors (zip (map label_name
                (filter (\<lambda>r. enabled r \<noteq> Val False) (loadAutoLabelingRules (store_of mixed_rules)))) css) \<and>
            map rr_rule (rs_results sm) =
              rule_successes (zip (map label_name
                (filter (\<lambda>r. enabled r \<noteq> Val False) (loadAutoLabelingRules (store_of mixed_rules)))) css))"
    by auto
  with h ne w show ?thesis
    by (intro exI[of _ sm] exI[of _ st'] exI[of _ s']) simp
qed

subsection \<open>C7: replace never removes a system label\<close>

text \<open>
  C7: the request body of the replace operation removes exactly the labels the messages of
  the chunk carry that are not system labels, and adds the requested labels; and in every
  run of \<open>toolBulkLabelEmails\<close> with the operation \<open>replace\<close>, every batch-modify
  call issued removes no system label and adds the requested \<open>label_ids\<close>. The witness is
  the message labelled INBOX, UNREAD and Project-X, replaced with Project-Y.
\<close>

theorem replace_spares_system_labels:
  "set (or_empty (mb_removeLabelIds (replace_body label_ids ids msgs))) =
     (\<Union>m \<in> set msgs. set (or_empty (msg_labelIds m))) - set systemLabels \<and>
   mb_addLabelIds (replace_body label_ids ids msgs) = Val label_ids \<and>
   (\<exists>new. modify_calls (trace (snd (toolBulkLabelEmails g qa lids (Val ''replace'') b d s))) =
            modify_calls (trace s) @ new \<and>
          (\<forall>body \<in> set new.
             set (or_empty (mb_removeLabelIds body)) \<inter> set systemLabels = {} \<and>
             mb_addLabelIds body = Val (or_empty lids)))"
proof (intro conjI)
  show "set (or_empty (mb_removeLabelIds (replace_body label_ids ids msgs))) =
     (\<Union>m \<in> set msgs. set (or_empty (msg_labelIds m))) - set systemLabels"
    by (auto simp: replace_body_def Let_def set_new_Set)
  show "mb_addLabelIds (replace_body label_ids ids msgs) = Val label_ids"
    by (simp add: replace_body_def Let_def)
  show "\<exists>new. modify_calls (trace (snd (toolBulkLabelEmails g qa lids (Val ''replace'') b d s))) =
            modify_calls (trace s) @ new \<and>
          (\<forall>body \<in> set new.
             set (or_empty (mb_removeLabelIds body)) \<inter> set systemLabels = {} \<and>
             mb_addLabelIds body = Val (or_empty lids))"
    using bulk_label_replace_calls[of g qa lids b d s]
    unfolding spares_system_labels_def .
qed

theorem replace_spares_system_labels_witness:
  "modify_calls (trace (snd (toolBulkLabelEmails sim_gmail (Val ''label:Project-X'') (Val [''Project-Y''])
       (Val ''replace'') Undefined Undefined (start project_x_mail))))
     = [\<lparr>mb_ids = [''m1''], mb_addLabelIds = Val [''Project-Y''],
         mb_removeLabelIds = Val [''Project-X'']\<rparr>] \<and>
   set [''Project-X''] \<inter> set systemLabels = {}"
proof -
  have run: "modify_calls (trace (snd (toolBulkLabelEmails sim_gmail (Val ''label:Project-X'') (Val [''Project-Y''])
       (Val ''replace'') Undefined Undefined (start project_x_mail))))
     = [\<lparr>mb_ids = [''m1''], mb_addLabelIds = Val [''Project-Y''],
         mb_removeLabelIds = Val [''Project-X'']\<rparr>]"
    by code_simp
  from replace_spares_system_labels[of "[]" "[]" "[]" sim_gmail "Val ''label:Project-X''" "Val [''Project-Y'']"
         Undefined Undefined "start project_x_mail"]
  obtain new where
    n: "modify_calls (trace (snd (toolBulkLabelEmails sim_gmail (Val ''label:Project-X'') (Val [''Project-Y''])
         (Val ''replace'') Undefined Undefined (start project_x_mail))))
         = modify_calls (trace (start project_x_mail)) @ new"
       "\<forall>body \<in> set new.
             set (or_empty (mb_removeLabelIds body)) \<inter> set systemLabels = {} \<and>
             mb_addLabelIds body = Val (or_empty (Val [''Project-Y'']))"
    by blast
  from n(1) run have "new = [\<lparr>mb_ids = [''m1''], mb_addLabelIds = Val [''Project-Y''],
         mb_removeLabelIds = Val [''Project-X'']\<rparr>]"
    by (simp add: start_def)
  with n(2) have "set [''Project-X''] \<inter> set systemLabels = {}" by simp
  with run show ?thesis by simp
qed

subsection \<open>C8: what a dry run touches\<close>

text \<open>
  C8 says that a dry run of \<open>toolRunAutoLabelingRules\<close> does not mutate the mailbox.
  The label of a rule is resolved before \<open>dry_run\<close> is looked at, so a dry run creates
  the label when no label of that name exists. What holds (C8 as amended): with
  \<open>dry_run\<close> set, \<open>toolBulkDeleteEmails\<close> issues the count probe and no other call,
  leaves the mailbox as it is, and returns the estimate and the batch count computed from
  it when the estimate is not zero; a dry run of \<open>toolRunAutoLabelingRules\<close> leaves the
  rule store as it is (no \<open>last_run\<close> is written), issues only listing and reading calls
  and label creations, leaves the mailbox as it is when it creates no label, and a second
  dry run against the same mailbox returns the same results, match counts included.
\<close>

theorem dry_run_effects:
  "(truthy_bool dry \<and> truthy_str qa \<longrightarrow>
      trace (snd (toolBulkDeleteEmails g qa b p dry s)) =
        trace s @ [MessagesList (probe_params (str_of qa))
                     (messages_list g (mailbox s) (probe_params (str_of qa)))] \<and>
      mailbox (snd (toolBulkDeleteEmails g qa b p dry s)) = mailbox s \<and>
      (\<forall>probe. messages_list g (mailbox s) (probe_params (str_of qa)) = Inr probe \<and>
               nat_or_zero (lr_resultSizeEstimate probe) \<noteq> 0 \<longrightarrow>
         fst (toolBulkDeleteEmails g qa b p dry s) =
           Inr (DryRun \<lparr>dr_query = str_of qa,
                        dr_total_estimated = nat_or_zero (lr_resultSizeEstimate probe),
                        dr_batch_size = clamp 10 500 (delete_batch_size b),
                        dr_estimated_batches =
                          ceil_div (nat_or_zero (lr_resultSizeEstimate probe))
                            (clamp 10 500 (delete_batch_size b))\<rparr>))) \<and>
   (truthy_bool dry \<and> toolRunAutoLabelingRules g dry bs mb (st, s) = (out, st', s') \<longrightarrow>
      st' = st \<and> reads_or_creates s s' \<and>
      (\<forall>t. mailbox t = mailbox s \<longrightarrow> fst (toolRunAutoLabelingRules g dry bs mb (st', t)) = out))"
proof (rule conjI; rule impI)
  assume h: "truthy_bool dry \<and> truthy_str qa"
  let ?p = "probe_params (str_of qa)"
  let ?r = "messages_list g (mailbox s) ?p"
  have pr: "call_list g ?p s = (?r, s\<lparr>trace := trace s @ [MessagesList ?p ?r]\<rparr>)"
    by (simp add: call_list_def Let_def)
  have sn: "snd (toolBulkDeleteEmails g qa b p dry s) = s\<lparr>trace := trace s @ [MessagesList ?p ?r]\<rparr>"
    using h by (cases ?r) (auto simp: toolBulkDeleteEmails_def Let_def pr)
  have out: "\<forall>probe. ?r = Inr probe \<and> nat_or_zero (lr_resultSizeEstimate probe) \<noteq> 0 \<longrightarrow>
         fst (toolBulkDeleteEmails g qa b p dry s) =
           Inr (DryRun \<lparr>dr_query = str_of qa,
                        dr_total_estimated = nat_or_zero (lr_resultSizeEstimate probe),
                        dr_batch_size = clamp 10 500 (delete_batch_size b),
                        dr_estimated_batches =
                          ceil_div (nat_or_zero (lr_resultSizeEstimate probe))
                            (clamp 10 500 (delete_batch_size b))\<rparr>)"
    using h by (auto simp: toolBulkDeleteEmails_def Let_def pr)
  from sn out show "trace (snd (toolBulkDeleteEmails g qa b p dry s)) =
        trace s @ [MessagesList ?p ?r] \<and>
      mailbox (snd (toolBulkDeleteEmails g qa b p dry s)) = mailbox s \<and>
      (\<forall>probe. ?r = Inr probe \<and> nat_or_zero (lr_resultSizeEstimate probe) \<noteq> 0 \<longrightarrow>
         fst (toolBulkDeleteEmails g qa b p dry s) =
           Inr (DryRun \<lparr>dr_query = str_of qa,
                        dr_total_estimated = nat_or_zero (lr_resultSizeEstimate probe),
                        dr_batch_size = clamp 10 500 (delete_batch_size b),
                        dr_estimated_batches =
                          ceil_div (nat_or_zero (lr_resultSizeEstimate probe))
                            (clamp 10 500 (delete_batch_size b))\<rparr>))"
    by simp
next
  assume h: "truthy_bool dry \<and> toolRunAutoLabelingRules g dry bs mb (st, s) = (out, st', s')"
  from toolRun_dry[of dry g bs mb st s out st' s'] h have a: "st' = st" "reads_or_creates s s'"
    by simp_all
  have "\<forall>t. mailbox t = mailbox s \<longrightarrow> fst (toolRunAutoLabelingRules g dry bs mb (st', t)) = out"
  proof (intro allI impI)
    fix t :: "'a session"
    assume "mailbox t = mailbox s"
    from toolRun_mailbox[OF this, of g dry bs mb st] h a
    show "fst (toolRunAutoLabelingRules g dry bs mb (st', t)) = out" by simp
  qed
  with a show "st' = st \<and> reads_or_creates s s' \<and>
      (\<forall>t. mailbox t = mailbox s \<longrightarrow> fst (toolRunAutoLabelingRules g dry bs mb (st', t)) = out)"
    by simp
qed

text \<open>
  The claim as stated fails: the dry run of a rule whose label \<open>Work\<close> does not exist
  creates the label.
\<close>

theorem dry_run_creates_label_counterexample:
  "fst (toolRunAutoLabelingRules sim_gmail (Val True) Undefined Undefined (store_of [work_rule], start small))
     = RunDone \<lparr>rs_total_rules = 1, rs_enabled_rules = 1, rs_processed = 1, rs_failed = 0,
                rs_results = [\<lparr>rr_rule = Val ''Work'', rr_label_id = ''Label_Work'', rr_emails_found = 3,
                                rr_emails_labeled = Undefined, rr_batches_processed = Val 1,
                                rr_status = ''dry_run'', rr_query = Val ''from:boss@corp.example''\<rparr>],
                rs_errors = Undefined\<rparr> \<and>
   sim_labels small = [\<lparr>lbl_id = ''Project-X'', lbl_name = ''Project X''\<rparr>] \<and>
   sim_labels (mailbox (snd (snd (toolRunAutoLabelingRules sim_gmail (Val True) Undefined Undefined
                                    (store_of [work_rule], start small)))))
     = [\<lparr>lbl_id = ''Project-X'', lbl_name = ''Project X''\<rparr>, \<lparr>lbl_id = ''Label_Work'', lbl_name = ''Work''\<rparr>] \<and>
   filter is_create (trace (snd (snd (toolRunAutoLabelingRules sim_gmail (Val True) Undefined Undefined
                                    (store_of [work_rule], start small)))))
     = [LabelsCreate (Val ''Work'') (Inr \<lparr>lbl_id = ''Label_Work'', lbl_name = ''Work''\<rparr>)]"
  by code_simp

theorem dry_run_effects_witness:
  "(truthy_bool (Val True) \<and> truthy_str (Val ''q'')) \<and>
   fst (toolBulkDeleteEmails sim_gmail (Val ''q'') Undefined Undefined (Val True) (start sim0))
     = Inr (DryRun \<lparr>dr_query = ''q'', dr_total_estimated = 12, dr_batch_size = 100,
                    dr_estimated_batches = 1\<rparr>) \<and>
   trace (snd (toolBulkDeleteEmails sim_gmail (Val ''q'') Undefined Undefined (Val True) (start sim0))) =
     trace (start sim0) @
       [MessagesList (probe_params (str_of (Val ''q'')))
          (messages_list sim_gmail (mailbox (start sim0)) (probe_params (str_of (Val ''q''))))] \<and>
   mailbox (snd (toolBulkDeleteEmails sim_gmail (Val ''q'') Undefined Undefined (Val True) (start sim0)))
     = mailbox (start sim0) \<and>
   (\<exists>out st' s'.
      toolRunAutoLabelingRules sim_gmail (Val True) Undefined Undefined (store_of [project_rule], start small)
        = (out, st', s') \<and>
      st' = store_of [project_rule] \<and> reads_or_creates (start small) s' \<and>
      mailbox s' = mailbox (start small) \<and>
      (\<forall>t. mailbox t = mailbox (start small) \<longrightarrow>
         fst (toolRunAutoLabelingRules sim_gmail (Val True) Undefined Undefined (st', t)) = out) \<and>
      fst (toolRunAutoLabelingRules sim_gmail (Val True) Undefined Undefined (st', s')) = out)"
proof -
  have h1: "truthy_bool (Val True) \<and> truthy_str (Val ''q'')" by simp
  obtain out st' s' where
    r: "toolRunAutoLabelingRules sim_gmail (Val True) Undefined Undefined (store_of [project_rule], start small)
        = (out, st', s')"
    by (cases "toolRunAutoLabelingRules sim_gmail (Val True) Undefined Undefined (store_of [project_rule], start small)")
       auto
  have "mailbox (snd (snd (toolRunAutoLabelingRules sim_gmail (Val True) Undefined Undefined
          (store_of [project_rule], start small)))) = mailbox (start small)"
    by code_simp
  with r have mb: "mailbox s' = mailbox (start small)" by simp
  note t1 = dry_run_effects[of "Val True" "Val ''q''" sim_gmail Undefined Undefined "start sim0"
              Undefined Undefined "store_of [project_rule]" out st' s']
  note t2 = dry_run_effects[of "Val True" "Val ''q''" sim_gmail Undefined Undefined "start small"
              Undefined Undefined "store_of [project_rule]" out st' s']
  note c1 = mp[OF conjunct1[OF t1] h1]
  have h2: "truthy_bool (Val True) \<and>
      toolRunAutoLabelingRules sim_gmail (Val True) Undefined Undefined (store_of [project_rule], start small)
        = (out, st', s')"
    using r by simp
  have c2: "st' = store_of [project_rule] \<and> reads_or_creates (start small) s' \<and>
      (\<forall>t. mailbox t = mailbox (start small) \<longrightarrow>
         fst (toolRunAutoLabelingRules sim_gmail (Val True) Undefined Undefined (st', t)) = out)"
    by (rule mp[OF conjunct2[OF t2] h2])
  have c3: "fst (toolRunAutoLabelingRules sim_gmail (Val True) Undefined Undefined (st', s')) = out"
    by (rule mp[OF spec[OF conjunct2[OF conjunct2[OF c2]]] mb])
  have c4: "\<exists>out st' s'.
      toolRunAutoLabelingRules sim_gmail (Val True) Undefined Undefined (store_of [project_rule], start small)
        = (out, st', s') \<and>
      st' = store_of [project_rule] \<and> reads_or_creates (start small) s' \<and>
      mailbox s' = mailbox (start small) \<and>
      (\<forall>t. mailbox t = mailbox (start small) \<longrightarrow>
         fst (toolRunAutoLabelingRules sim_gmail (Val True) Undefined Undefined (st', t)) = out) \<and>
      fst (toolRunAutoLabelingRules sim_gmail (Val True) Undefined Undefined (st', s')) = out"
    by (intro exI[of _ out] exI[of _ st'] exI[of _ s'] conjI)
       (fact r mb c3 c2[THEN conjunct1] c2[THEN conjunct2, THEN conjunct1]
             c2[THEN conjunct2, THEN conjunct2])+
  have p: "messages_list sim_gmail (mailbox (start sim0)) (probe_params (str_of (Val ''q''))) =
             Inr \<lparr>lr_messages = Val [''a''], lr_nextPageToken = Val ''x'', lr_resultSizeEstimate = Val 12\<rparr> \<and>
           nat_or_zero (lr_resultSizeEstimate
             \<lparr>lr_messages = Val [''a''], lr_nextPageToken = Val ''x'', lr_resultSizeEstimate = Val 12\<rparr>) \<noteq> 0"
    by code_simp
  have e: "fst (toolBulkDeleteEmails sim_gmail (Val ''q'') Undefined Undefined (Val True) (start sim0))
     = Inr (DryRun \<lparr>dr_query = ''q'', dr_total_estimated = 12, dr_batch_size = 100,
                    dr_estimated_batches = 1\<rparr>)"
    using mp[OF spec[OF conjunct2[OF conjunct2[OF c1]]] p]
    by (simp add: clamp_def ceil_div_def)
  have c1a: "trace (snd (toolBulkDeleteEmails sim_gmail (Val ''q'') Undefined Undefined (Val True) (start sim0))) =
     trace (start sim0) @
       [MessagesList (probe_params (str_of (Val ''q'')))
          (messages_list sim_gmail (mailbox (start sim0)) (probe_params (str_of (Val ''q''))))]"
    and c1b: "mailbox (snd (toolBulkDeleteEmails sim_gmail (Val ''q'') Undefined Undefined (Val True) (start sim0)))
     = mailbox (start sim0)"
    using c1 by simp_all
  show ?thesis
    by (intro conjI) (fact h1[THEN conjunct1] h1[THEN conjunct2] e c1a c1b c4)+
qed

subsection \<open>C9: removing a rule by index\<close>

text \<open>
  C9: with \<open>n\<close> stored rules, removing index \<open>i < n\<close> persists the \<open>n - 1\<close> other
  rules in order, so that \<open>toolListAutoLabelingRules\<close> then shows, at every index from
  \<open>i\<close> on, the rule that was one index higher, and the removed rule is gone (when the
  file can be written); removing an index \<open>i \<ge> n\<close> raises InvalidRequest and leaves
  the store as it was.
\<close>

theorem remove_rule_by_index:
  "(fs_write_error st = None \<and> i < length (loadAutoLabelingRules st) \<longrightarrow>
      (\<exists>out st'. toolRemoveAutoLabelingRule (Some (int i)) st = (Inr out, st') \<and>
         ro_removed_rule out = loadAutoLabelingRules st ! i \<and>
         loadAutoLabelingRules st' = take i (loadAutoLabelingRules st) @ drop (Suc i) (loadAutoLabelingRules st) \<and>
         length (toolListAutoLabelingRules st') = length (loadAutoLabelingRules st) - 1 \<and>
         (\<forall>j < length (loadAutoLabelingRules st) - 1.
            toolListAutoLabelingRules st' ! j =
              format_rule j (loadAutoLabelingRules st ! (if j < i then j else Suc j))) \<and>
         (distinct (loadAutoLabelingRules st) \<longrightarrow>
            loadAutoLabelingRules st ! i \<notin> set (loadAutoLabelingRules st')))) \<and>
   (length (loadAutoLabelingRules st) \<le> i \<longrightarrow>
      toolRemoveAutoLabelingRule (Some (int i)) st =
        (Inl (McpError InvalidRequest (out_of_range_msg (int i) (length (loadAutoLabelingRules st)))), st))"
proof (intro conjI impI)
  assume h: "fs_write_error st = None \<and> i < length (loadAutoLabelingRules st)"
  define rs where "rs = loadAutoLabelingRules st"
  define rs' where "rs' = take i rs @ drop (Suc i) rs"
  from h have i: "i < length rs" by (simp add: rs_def)
  from h save_succeeds[of st rs'] obtain st' where sv: "saveAutoLabelingRules rs' st = (None, st')"
    by blast
  have ld: "loadAutoLabelingRules st' = rs'" by (rule load_after_save[OF sv])
  have run: "toolRemoveAutoLabelingRule (Some (int i)) st =
      (Inr \<lparr>ro_index = int i, ro_removed_rule = rs ! i, ro_remaining_rules = length rs'\<rparr>, st')"
    using i sv by (simp add: toolRemoveAutoLabelingRule_def Let_def rs_def[symmetric] rs'_def[symmetric])
  have len: "length rs' = length rs - 1" using i by (auto simp: rs'_def)
  have nth: "\<forall>j < length rs - 1. toolListAutoLabelingRules st' ! j = format_rule j (rs ! (if j < i then j else Suc j))"
  proof (intro allI impI)
    fix j assume j: "j < length rs - 1"
    then have "toolListAutoLabelingRules st' ! j = format_rule j (rs' ! j)"
      using list_rules_nth[of j st'] ld len by simp
    also have "rs' ! j = rs ! (if j < i then j else Suc j)"
      unfolding rs'_def using nth_remove[OF j i] .
    finally show "toolListAutoLabelingRules st' ! j = format_rule j (rs ! (if j < i then j else Suc j))" .
  qed
  have dist: "distinct rs \<longrightarrow> rs ! i \<notin> set rs'"
  proof
    assume d: "distinct rs"
    have "rs = take i rs @ rs ! i # drop (Suc i) rs" using i by (simp add: id_take_nth_drop)
    with d have "distinct (take i rs @ rs ! i # drop (Suc i) rs)" by simp
    then show "rs ! i \<notin> set rs'" by (auto simp: rs'_def)
  qed
  show "\<exists>out st'. toolRemoveAutoLabelingRule (Some (int i)) st = (Inr out, st') \<and>
         ro_removed_rule out = loadAutoLabelingRules st ! i \<and>
         loadAutoLabelingRules st' = take i (loadAutoLabelingRules st) @ drop (Suc i) (loadAutoLabelingRules st) \<and>
         length (toolListAutoLabelingRules st') = length (loadAutoLabelingRules st) - 1 \<and>
         (\<forall>j < length (loadAutoLabelingRules st) - 1.
            toolListAutoLabelingRules st' ! j =
              format_rule j (loadAutoLabelingRules st ! (if j < i then j else Suc j))) \<and>
         (distinct (loadAutoLabelingRules st) \<longrightarrow>
            loadAutoLabelingRules st ! i \<notin> set (loadAutoLabelingRules st'))"
    using run ld len nth dist
    by (auto simp: rs_def[symmetric] rs'_def[symmetric] list_rules_length intro!: exI[of _ st'])
next
  assume "length (loadAutoLabelingRules st) \<le> i"
  then show "toolRemoveAutoLabelingRule (Some (int i)) st =
        (Inl (McpError InvalidRequest (out_of_range_msg (int i) (length (loadAutoLabelingRules st)))), st)"
    by (simp add: toolRemoveAutoLabelingRule_def Let_def)
qed

theorem remove_rule_by_index_witness:
  "(fs_write_error (store_of three_rules) = None \<and> 1 < length (loadAutoLabelingRules (store_of three_rules))) \<and>
   distinct (loadAutoLabelingRules (store_of three_rules)) \<and>
   1 < length (loadAutoLabelingRules (store_of three_rules)) - 1 \<and>
   (\<exists>out st'. toolRemoveAutoLabelingRule (Some (int 1)) (store_of three_rules) = (Inr out, st') \<and>
      ro_removed_rule out = loadAutoLabelingRules (store_of three_rules) ! 1 \<and>
      loadAutoLabelingRules st' =
        take 1 (loadAutoLabelingRules (store_of three_rules)) @
        drop (Suc 1) (loadAutoLabelingRules (store_of three_rules)) \<and>
      length (toolListAutoLabelingRules st') = length (loadAutoLabelingRules (store_of three_rules)) - 1 \<and>
      toolListAutoLabelingRules st' ! 1 = format_rule 1 (loadAutoLabelingRules (store_of three_rules) ! 2) \<and>
      loadAutoLabelingRules (store_of three_rules) ! 1 \<notin> set (loadAutoLabelingRules st')) \<and>
   length (loadAutoLabelingRules (store_of three_rules)) \<le> 3 \<and>
   toolRemoveAutoLabelingRule (Some (int 3)) (store_of three_rules) =
     (Inl (McpError InvalidRequest
        (out_of_range_msg (int 3) (length (loadAutoLabelingRules (store_of three_rules))))),
      store_of three_rules)"
proof -
  have h1: "fs_write_error (store_of three_rules) = None \<and> 1 < length (loadAutoLabelingRules (store_of three_rules))"
    by (simp add: store_of_def three_rules_def loadAutoLabelingRules_def)
  have h2: "length (loadAutoLabelingRules (store_of three_rules)) \<le> 3"
    by (simp add: store_of_def three_rules_def loadAutoLabelingRules_def)
  have h3: "distinct (loadAutoLabelingRules (store_of three_rules))"
    by (simp add: store_of_def three_rules_def loadAutoLabelingRules_def blank_rule_def)
  have h4: "1 < length (loadAutoLabelingRules (store_of three_rules)) - 1"
    by (simp add: store_of_def three_rules_def loadAutoLabelingRules_def)
  from mp[OF conjunct1[OF remove_rule_by_index[of "store_of three_rules" 1]] h1]
  obtain out st' where
    c: "toolRemoveAutoLabelingRule (Some (int 1)) (store_of three_rules) = (Inr out, st')"
       "ro_removed_rule out = loadAutoLabelingRules (store_of three_rules) ! 1"
       "loadAutoLabelingRules st' =
        take 1 (loadAutoLabelingRules (store_of three_rules)) @
        drop (Suc 1) (loadAutoLabelingRules (store_of three_rules))"
       "length (toolListAutoLabelingRules st') = length (loadAutoLabelingRules (store_of three_rules)) - 1"
       "\<forall>j < length (loadAutoLabelingRules (store_of three_rules)) - 1.
         toolListAutoLabelingRules st' ! j =
           format_rule j (loadAutoLabelingRules (store_of three_rules) ! (if j < 1 then j else Suc j))"
       "distinct (loadAutoLabelingRules (store_of three_rules)) \<longrightarrow>
         loadAutoLabelingRules (store_of three_rules) ! 1 \<notin> set (loadAutoLabelingRules st')"
    by blast
  from c(5) h4 have c5: "toolListAutoLabelingRules st' ! 1 =
      format_rule 1 (loadAutoLabelingRules (store_of three_rules) ! 2)"
    by (auto simp: numeral_2_eq_2)
  from c(6) h3 have c6: "loadAutoLabelingRules (store_of three_rules) ! 1 \<notin> set (loadAutoLabelingRules st')"
    by (rule mp)
  have c1: "\<exists>out st'. toolRemoveAutoLabelingRule (Some (int 1)) (store_of three_rules) = (Inr out, st') \<and>
      ro_removed_rule out = loadAutoLabelingRules (store_of three_rules) ! 1 \<and>
      loadAutoLabelingRules st' =
        take 1 (loadAutoLabelingRules (store_of three_rules)) @
        drop (Suc 1) (loadAutoLabelingRules (store_of three_rules)) \<and>
      length (toolListAutoLabelingRules st') = length (loadAutoLabelingRules (store_of three_rules)) - 1 \<and>
      toolListAutoLabelingRules st' ! 1 = format_rule 1 (loadAutoLabelingRules (store_of three_rules) ! 2) \<and>
      loadAutoLabelingRules (store_of three_rules) ! 1 \<notin> set (loadAutoLabelingRules st')"
    by (intro exI[of _ out] exI[of _ st'] conjI) (fact c(1) c(2) c(3) c(4) c5 c6)+
  have c2: "toolRemoveAutoLabelingRule (Some (int 3)) (store_of three_rules) =
     (Inl (McpError InvalidRequest
        (out_of_range_msg (int 3) (length (loadAutoLabelingRules (store_of three_rules))))),
      store_of three_rules)"
    by (rule mp[OF conjunct2[OF remove_rule_by_index[of "store_of three_rules" 3]] h2])
  show ?thesis
    by (rule conjI[OF h1 conjI[OF h3 conjI[OF h4 conjI[OF c1 conjI[OF h2 c2]]]]])
qed

subsection \<open>C10: an update can empty the query\<close>

text \<open>
  C10: \<open>toolUpdateAutoLabelingRule\<close> checks no search criteria. For a stored rule with a
  query, an update that sets \<open>sender_pattern\<close>, \<open>subject_pattern\<close> and
  \<open>subject_contains\<close> to \<open>null\<close> and gives no query rebuilds the query from the
  now empty pattern fields and persists the empty string. The witness is a rule created
  from a sender pattern by \<open>toolAddAutoLabelingRule\<close>.
\<close>

theorem update_can_empty_the_query:
  assumes "fs_write_error st = None"
    and "i < length (loadAutoLabelingRules st)"
    and "truthy_str (query (loadAutoLabelingRules st ! i))"
  shows "\<exists>out st'. toolUpdateAutoLabelingRule (Some (int i)) clear_patterns st = (Inr out, st') \<and>
           query (loadAutoLabelingRules st' ! i) = Val []"
proof -
  define rs where "rs = loadAutoLabelingRules st"
  define r' where "r' = (rebuilt_query clear_patterns (update_fields clear_patterns (rs ! i)))\<lparr>updated := Val (now st)\<rparr>"
  from assms(1) save_succeeds[of st "rs[i := r']"] obtain st' where
    sv: "saveAutoLabelingRules (rs[i := r']) st = (None, st')" by blast
  have q: "query r' = Val []"
    using assms(3)
    by (simp add: r'_def rs_def rebuilt_query_def update_fields_def clear_patterns_def no_args_def
          conditions3_def Let_def)
  have "toolUpdateAutoLabelingRule (Some (int i)) clear_patterns st =
          (Inr \<lparr>uo_index = int i, uo_original = rs ! i, uo_updated = r'\<rparr>, st')"
    using assms(2) sv
    by (simp add: toolUpdateAutoLabelingRule_def Let_def rs_def[symmetric] r'_def[symmetric])
  moreover have "query (loadAutoLabelingRules st' ! i) = Val []"
    using load_after_save[OF sv] assms(2) q by (simp add: rs_def)
  ultimately show ?thesis by blast
qed

theorem update_can_empty_the_query_witness:
  "fs_write_error (snd (toolAddAutoLabelingRule sender_args empty_store)) = None \<and>
   0 < length (loadAutoLabelingRules (snd (toolAddAutoLabelingRule sender_args empty_store))) \<and>
   query (loadAutoLabelingRules (snd (toolAddAutoLabelingRule sender_args empty_store)) ! 0)
     = Val ''from:boss@corp.example'' \<and>
   (\<exists>out st'. toolUpdateAutoLabelingRule (Some (int 0)) clear_patterns
                 (snd (toolAddAutoLabelingRule sender_args empty_store)) = (Inr out, st') \<and>
              query (loadAutoLabelingRules st' ! 0) = Val [])"
proof -
  have h: "fs_write_error (snd (toolAddAutoLabelingRule sender_args empty_store)) = None"
    "0 < length (loadAutoLabelingRules (snd (toolAddAutoLabelingRule sender_args empty_store)))"
    "query (loadAutoLabelingRules (snd (toolAddAutoLabelingRule sender_args empty_store)) ! 0)
       = Val ''from:boss@corp.example''"
    by code_simp+
  then have t: "truthy_str (query (loadAutoLabelingRules (snd (toolAddAutoLabelingRule sender_args empty_store)) ! 0))"
    by simp
  from update_can_empty_the_query[OF h(1) h(2) t] h show ?thesis by blast
qed

end
